theory Spec2Isabelle
  imports
    Main
    "HOL-Library.AList"
    "HOL-Library.Char_ord"
    "HOL-Library.List_Lexorder"
    "HOL-Library.Multiset"
    "HOL-Library.Word"
begin

section \<open>Python values used by \<open>scripts/admin-user-audit.py\<close>\<close>

text \<open>
  A \<^typ>\<open>char\<close> stands for one code point below 256, so a \<^typ>\<open>string\<close> is a Python
  \<open>str\<close> over that range; the order of \<^typ>\<open>string\<close> (lexicographic over the code
  points, a proper prefix first) is the order Python's \<open>sorted\<close> uses on \<open>str\<close>.
  Every exception the script can raise is a value of \<open>py_error\<close>; \<open>sys.exit(1)\<close> is
  \<open>SystemExit 1\<close>.
\<close>

datatype py_error =
    SystemExit int
  | OSError
  | ValueError
  | AttributeError
  | TypeError
  | KeyError
  | IndexError
  | StopIteration
  | LibraryError string

subsection \<open>\<open>str\<close> methods\<close>

definition py_isspace :: "char \<Rightarrow> bool" where
  \<comment> \<open>the code points below 256 that \<open>str.strip()\<close> removes\<close>
  "py_isspace c =
     (let n = (of_char c :: nat)
      in (9 \<le> n \<and> n \<le> 13) \<or> (28 \<le> n \<and> n \<le> 32) \<or> n = 133 \<or> n = 160)"

definition strip_chars :: "(char \<Rightarrow> bool) \<Rightarrow> string \<Rightarrow> string" where
  "strip_chars p s = rev (dropWhile p (rev (dropWhile p s)))"

definition str_strip :: "string \<Rightarrow> string" where
  \<comment> \<open>\<open>s.strip()\<close>\<close>
  "str_strip s = strip_chars py_isspace s"

definition str_strip_set :: "string \<Rightarrow> string \<Rightarrow> string" where
  \<comment> \<open>\<open>s.strip(cs)\<close>: every leading and trailing character that occurs in \<open>cs\<close> goes\<close>
  "str_strip_set cs s = strip_chars (\<lambda>c. c \<in> set cs) s"

definition startswith :: "string \<Rightarrow> string \<Rightarrow> bool" where
  "startswith s p = (take (length p) s = p)"

definition str_partition :: "char \<Rightarrow> string \<Rightarrow> string \<times> string \<times> string" where
  \<comment> \<open>\<open>s.partition(sep)\<close> for a one-character separator\<close>
  "str_partition sep s =
     (case dropWhile (\<lambda>c. c \<noteq> sep) s of
        [] \<Rightarrow> (s, [], [])
      | c # rest \<Rightarrow> (takeWhile (\<lambda>c. c \<noteq> sep) s, [c], rest))"

definition is_linebreak :: "char \<Rightarrow> bool" where
  \<comment> \<open>the line boundaries of \<open>str.splitlines()\<close> below 256\<close>
  "is_linebreak c =
     (let n = (of_char c :: nat) in (10 \<le> n \<and> n \<le> 13) \<or> (28 \<le> n \<and> n \<le> 30) \<or> n = 133)"

fun splitlines_from :: "string \<Rightarrow> string \<Rightarrow> string list" where
  "splitlines_from cur [] = (if cur = [] then [] else [rev cur])"
| "splitlines_from cur (c # cs) =
     (if c = CHR 0x0D \<and> cs \<noteq> [] \<and> hd cs = CHR 0x0A then rev cur # splitlines_from [] (tl cs)
      else if is_linebreak c then rev cur # splitlines_from [] cs
      else splitlines_from (c # cur) cs)"

definition splitlines :: "string \<Rightarrow> string list" where
  "splitlines s = splitlines_from [] s"

subsection \<open>The process environment\<close>

type_synonym environ = "string \<rightharpoonup> string"

definition environ_setitem :: "environ \<Rightarrow> string \<Rightarrow> string \<Rightarrow> py_error + environ" where
  \<comment> \<open>\<open>os.environ[k] = v\<close>: \<open>putenv\<close> refuses a NUL in either string and a name with
      \<open>=\<close> (ValueError), and the C library refuses an empty name (OSError, EINVAL)\<close>
  "environ_setitem env k v =
     (if CHR 0x00 \<in> set k \<or> CHR 0x00 \<in> set v then Inl ValueError
      else if CHR ''='' \<in> set k then Inl ValueError
      else if k = [] then Inl OSError
      else Inr (env(k \<mapsto> v)))"


section \<open>\<open>load_env\<close>\<close>

definition load_env_line :: "environ \<Rightarrow> string \<Rightarrow> py_error + environ" where
  \<comment> \<open>the body of the \<open>for line in ...\<close> loop; \<open>continue\<close> leaves the environment as it is\<close>
  "load_env_line env raw =
     (let line = str_strip raw
      in if line = [] \<or> startswith line ''#'' then Inr env
         else (case str_partition CHR ''='' line of
                 (key, _, value) \<Rightarrow>
                   (let value' = str_strip_set [CHR 0x27, CHR 0x22] (str_strip value)
                    in environ_setitem env (str_strip key) value')))"

fun load_env_lines :: "environ \<Rightarrow> string list \<Rightarrow> py_error + environ" where
  "load_env_lines env [] = Inr env"
| "load_env_lines env (l # ls) =
     (case load_env_line env l of
        Inl e \<Rightarrow> Inl e
      | Inr env' \<Rightarrow> load_env_lines env' ls)"

definition load_env :: "string option \<Rightarrow> environ \<Rightarrow> py_error + environ" where
  \<comment> \<open>the first argument is the text of \<open>.env.production.local\<close>, \<open>None\<close> when the file
      does not exist\<close>
  "load_env env_file env =
     (case env_file of
        None \<Rightarrow> Inl (SystemExit 1)
      | Some text \<Rightarrow> load_env_lines env (splitlines text))"

subsection \<open>What a line of the file denotes\<close>

text \<open>
  \<open>env_binding\<close> reads a line the way the loader is described: nothing for a blank or
  \<open>#\<close> line, otherwise the text before the first \<open>=\<close>, trimmed, as the name, and the
  text after it, trimmed and then freed of every leading and trailing quote character,
  as the value. \<open>matching_pair_unquote\<close> is the narrower reading in which only one
  matching pair of surrounding quotes is removed. \<open>putenv_ok\<close> says that the process
  environment accepts a name and a value.
\<close>

definition is_quote :: "char \<Rightarrow> bool" where
  "is_quote c = (c = CHR 0x27 \<or> c = CHR 0x22)"

definition env_binding :: "string \<Rightarrow> (string \<times> string) option" where
  "env_binding raw =
     (let line = str_strip raw
      in if line = [] \<or> hd line = CHR ''#'' then None
         else Some (str_strip (takeWhile (\<lambda>c. c \<noteq> CHR ''='') line),
                    strip_chars is_quote
                      (str_strip (drop 1 (dropWhile (\<lambda>c. c \<noteq> CHR ''='') line)))))"

definition putenv_ok :: "string \<times> string \<Rightarrow> bool" where
  "putenv_ok kv =
     (CHR 0x00 \<notin> set (fst kv) \<and> CHR 0x00 \<notin> set (snd kv) \<and>
      CHR ''='' \<notin> set (fst kv) \<and> fst kv \<noteq> [])"

definition matching_pair_unquote :: "string \<Rightarrow> string" where
  "matching_pair_unquote v =
     (if 2 \<le> length v \<and> is_quote (hd v) \<and> last v = hd v then butlast (tl v) else v)"

section \<open>Parsed JSON and the operations the script applies to it\<close>

text \<open>
  \<open>json.loads\<close> returns \<open>None\<close>, a \<open>bool\<close>, an \<open>int\<close>, a \<open>float\<close> (kept as its 64
  bits), a \<open>str\<close>, a \<open>list\<close> or a \<open>dict\<close> with string keys; a \<open>dict\<close> is the list of
  its items, each key once. The script applies \<open>.get\<close>, subscripts, \<open>len\<close>, iteration
  and truth tests to such values without checking their type first, so each operation
  is modelled on every shape, with the exception Python raises on the wrong ones.
\<close>

datatype json =
    JNull
  | JBool bool
  | JInt int
  | JFloat "64 word"
  | JString string
  | JArray "json list"
  | JObject "(string \<times> json) list"


fun py_get :: "json \<Rightarrow> string \<Rightarrow> json \<Rightarrow> py_error + json" where
  \<comment> \<open>\<open>x.get(k, d)\<close>: only a \<open>dict\<close> has the method\<close>
  "py_get (JObject kvs) k d = Inr (case map_of kvs k of None \<Rightarrow> d | Some v \<Rightarrow> v)"
| "py_get _ k d = Inl AttributeError"






section \<open>\<open>fetch_clerk_users\<close>\<close>








section \<open>\<open>query_d1\<close>\<close>

text \<open>
  The child process and the JSON parser are parameters: \<open>run argv\<close> is what
  \<open>subprocess.run\<close> returns for the argument vector, \<open>json_loads\<close> is \<open>json.loads\<close>.
  \<open>local_wrangler\<close> is the path of \<open>node_modules/.bin/wrangler\<close> when that file
  exists, and \<open>db_name\<close> is the module constant \<open>DB_NAME\<close>.
\<close>

record completed_process =
  returncode :: int
  stdout :: string
  stderr :: string

definition find_wrangler :: "environ \<Rightarrow> string option \<Rightarrow> string" where
  "find_wrangler env local_wrangler =
     (case env ''WRANGLER_BIN'' of
        Some wrangler_bin \<Rightarrow>
          if wrangler_bin \<noteq> [] then wrangler_bin
          else (case local_wrangler of Some local \<Rightarrow> local | None \<Rightarrow> ''wrangler'')
      | None \<Rightarrow> (case local_wrangler of Some local \<Rightarrow> local | None \<Rightarrow> ''wrangler''))"

definition query_d1 ::
  "environ \<Rightarrow> string option \<Rightarrow> string \<Rightarrow> (string list \<Rightarrow> py_error + completed_process) \<Rightarrow>
   (string \<Rightarrow> py_error + json) \<Rightarrow> string \<Rightarrow> py_error + json" where
  "query_d1 env local_wrangler db_name run json_loads sql =
     (let wrangler = find_wrangler env local_wrangler
      in case run [wrangler, ''d1'', ''execute'', db_name, ''--remote'', ''--json'',
                   ''--command'', sql] of
           Inl e \<Rightarrow> Inl e
         | Inr result \<Rightarrow>
             if returncode result \<noteq> 0 then Inl (SystemExit 1)
             else (case json_loads (stdout result) of
                     Inl e \<Rightarrow> Inl e
                   | Inr data \<Rightarrow>
                       (case data of
                          JArray (x # xs) \<Rightarrow> py_get x ''results'' (JArray [])
                        | _ \<Rightarrow> Inr (JArray []))))"

subsection \<open>The vocabulary of the two fetchers' properties\<close>

text \<open>
  \<open>expected_shape\<close> is the output documented for the database tool: a sequence whose
  first element is an object with a \<open>results\<close> field. \<open>serves get_page page batches\<close>
  says that the requests for the pages from \<open>page\<close> on are answered with the batches
  of the list, one after the other, as a bare array or under \<open>data\<close>.
\<close>

fun expected_shape :: "json \<Rightarrow> bool" where
  "expected_shape (JArray (JObject kvs # xs)) = (map_of kvs ''results'' \<noteq> None)"
| "expected_shape _ = False"


subsection \<open>A sample identity API\<close>







section \<open>The report of \<open>main\<close>\<close>

text \<open>
  The two lists that \<open>main\<close> reconciles are typed as the data model has them: an
  identity user is a dictionary with the keys \<open>id\<close>, \<open>email\<close> and \<open>created_at\<close>, a
  database summary a row with \<open>clerk_user_id\<close> and four integer counts. Both kinds of
  dictionary are never empty, so \<open>if clerk\<close> and \<open>if db_row\<close> test for \<open>None\<close> only.
\<close>

record clerk_user =
  user_id :: string
  email :: string
  created_at :: string

record db_row =
  clerk_user_id :: string
  trip_count :: int
  master_item_count :: int
  category_count :: int
  bag_template_count :: int

subsection \<open>Format specifications\<close>

definition ljust :: "nat \<Rightarrow> string \<Rightarrow> string" where
  \<comment> \<open>\<open>{s:<w}\<close>: pad on the right with blanks, never cut\<close>
  "ljust w s = s @ replicate (w - length s) CHR '' ''"

definition rjust :: "nat \<Rightarrow> string \<Rightarrow> string" where
  \<comment> \<open>\<open>{s:>w}\<close>: pad on the left with blanks, never cut\<close>
  "rjust w s = replicate (w - length s) CHR '' '' @ s"

definition digit_char :: "nat \<Rightarrow> char" where
  "digit_char d = ''0123456789'' ! d"

function str_nat :: "nat \<Rightarrow> string" where
  "str_nat n = (if n < 10 then [digit_char n] else str_nat (n div 10) @ [digit_char (n mod 10)])"
  by pat_completeness auto
termination
  by (relation "measure (\<lambda>n. n)") auto

declare str_nat.simps [simp del]

definition str_int :: "int \<Rightarrow> string" where
  \<comment> \<open>the decimal text of a Python \<open>int\<close>\<close>
  "str_int i = (if i < 0 then CHR ''-'' # str_nat (nat (- i)) else str_nat (nat i))"

subsection \<open>Lines 153 to 159: the index, the database IDs and their sorted union\<close>

text \<open>
  A \<open>dict\<close> is the list of its items in insertion order, each key once: assigning to a
  key that is present replaces its value in place, a new key goes to the end
  (\<^const>\<open>AList.update\<close>), and \<open>d.get(k)\<close> is \<^const>\<open>map_of\<close>.
\<close>

type_synonym 'v dict = "(string \<times> 'v) list"

definition clerk_by_id_of :: "clerk_user list \<Rightarrow> clerk_user dict" where
  \<comment> \<open>\<open>{u["id"]: u for u in clerk_users}\<close>: a later user replaces an earlier one\<close>
  "clerk_by_id_of clerk_users = foldl (\<lambda>d u. AList.update (user_id u) u d) [] clerk_users"

definition db_ids_of :: "db_row list \<Rightarrow> string set" where
  \<comment> \<open>\<open>{row["clerk_user_id"] for row in db_users}\<close>\<close>
  "db_ids_of db_users = set (map clerk_user_id db_users)"

text \<open>
  Python leaves open in which order a \<open>set\<close> is iterated. The model takes that order as
  the parameter \<open>set_iter\<close>, which lists the elements of a set; \<open>sorted\<close> then sorts
  the list it is handed.
\<close>

definition all_ids_of ::
  "(string set \<Rightarrow> string list) \<Rightarrow> clerk_user dict \<Rightarrow> string set \<Rightarrow> string list" where
  \<comment> \<open>\<open>sorted(set(clerk_by_id.keys()) | db_ids)\<close>\<close>
  "all_ids_of set_iter clerk_by_id db_ids = sort (set_iter (set (map fst clerk_by_id) \<union> db_ids))"

subsection \<open>Lines 163 to 188: the table\<close>

record report_row =
  row_uid :: string
  row_email :: string
  row_trips :: int
  row_items :: int
  row_cats :: int
  row_tmpls :: int
  row_status :: string

definition format_row :: "report_row \<Rightarrow> string" where
  \<comment> \<open>the f-string of line 188\<close>
  "format_row r =
     ljust 36 (row_uid r) @ '' '' @ ljust 35 (row_email r) @ '' '' @
     rjust 5 (str_int (row_trips r)) @ '' '' @ rjust 5 (str_int (row_items r)) @ '' '' @
     rjust 4 (str_int (row_cats r)) @ '' '' @ rjust 4 (str_int (row_tmpls r)) @ ''  '' @
     row_status r"

definition header_lines :: "string list" where
  \<comment> \<open>the three \<open>print\<close> calls of lines 162 to 164\<close>
  "header_lines =
     ['''',
      ljust 36 ''USER_ID'' @ '' '' @ ljust 35 ''EMAIL'' @ '' '' @ rjust 5 ''TRIPS'' @ '' '' @
        rjust 5 ''ITEMS'' @ '' '' @ rjust 4 ''CATS'' @ '' '' @ rjust 4 ''TMPL'' @ ''  STATUS'',
      replicate 36 CHR ''-'' @ '' '' @ replicate 35 CHR ''-'' @ '' '' @ replicate 5 CHR ''-'' @
        '' '' @ replicate 5 CHR ''-'' @ '' '' @ replicate 4 CHR ''-'' @ '' '' @
        replicate 4 CHR ''-'' @ ''  '' @ replicate 20 CHR ''-'']"

record report_state =
  orphaned_db :: "string list"
  unused_clerk :: "string list"
  printed :: "string list"

definition report_iteration ::
  "clerk_user dict \<Rightarrow> db_row list \<Rightarrow> string \<Rightarrow> report_state \<Rightarrow> report_row \<times> report_state" where
  \<comment> \<open>one pass of the loop of line 169: the row it builds and the state it leaves\<close>
  "report_iteration clerk_by_id db_users uid st =
     (let clerk = map_of clerk_by_id uid;
          db_row = find (\<lambda>r. clerk_user_id r = uid) db_users;
          email' = (case clerk of Some c \<Rightarrow> email c | None \<Rightarrow> '''');
          trips = (case db_row of Some r \<Rightarrow> trip_count r | None \<Rightarrow> 0);
          items = (case db_row of Some r \<Rightarrow> master_item_count r | None \<Rightarrow> 0);
          cats = (case db_row of Some r \<Rightarrow> category_count r | None \<Rightarrow> 0);
          tmpls = (case db_row of Some r \<Rightarrow> bag_template_count r | None \<Rightarrow> 0);
          (status, st') =
            (if clerk \<noteq> None \<and> db_row \<noteq> None then (''ok'', st)
             else if clerk \<noteq> None \<and> db_row = None
               then (''NO DB DATA'', st\<lparr>unused_clerk := unused_clerk st @ [uid]\<rparr>)
             else (''** ORPHANED DB DATA **'', st\<lparr>orphaned_db := orphaned_db st @ [uid]\<rparr>));
          row = \<lparr>row_uid = uid, row_email = email', row_trips = trips, row_items = items,
                 row_cats = cats, row_tmpls = tmpls, row_status = status\<rparr>
      in (row, st'\<lparr>printed := printed st' @ [format_row row]\<rparr>))"

fun report_loop ::
  "clerk_user dict \<Rightarrow> db_row list \<Rightarrow> string list \<Rightarrow> report_state \<Rightarrow> report_state" where
  "report_loop clerk_by_id db_users [] st = st"
| "report_loop clerk_by_id db_users (uid # uids) st =
     report_loop clerk_by_id db_users uids (snd (report_iteration clerk_by_id db_users uid st))"

subsection \<open>Lines 191 to 206: the summary\<close>

fun orphaned_lines :: "db_row list \<Rightarrow> string list \<Rightarrow> py_error + string list" where
  \<comment> \<open>the loop of line 197; \<open>next\<close> without a default raises when no row matches\<close>
  "orphaned_lines db_users [] = Inr []"
| "orphaned_lines db_users (uid # uids) =
     (case find (\<lambda>r. clerk_user_id r = uid) db_users of
        None \<Rightarrow> Inl StopIteration
      | Some row \<Rightarrow>
          (case orphaned_lines db_users uids of
             Inl e \<Rightarrow> Inl e
           | Inr ls \<Rightarrow>
               Inr ((''  '' @ uid @ ''  ('' @ str_int (trip_count row) @ '' trips, '' @
                     str_int (master_item_count row) @ '' items)'') # ls)))"

fun unused_lines :: "clerk_user dict \<Rightarrow> string list \<Rightarrow> py_error + string list" where
  \<comment> \<open>the loop of line 205; \<open>clerk_by_id[uid]\<close> raises on a missing key\<close>
  "unused_lines clerk_by_id [] = Inr []"
| "unused_lines clerk_by_id (uid # uids) =
     (case map_of clerk_by_id uid of
        None \<Rightarrow> Inl KeyError
      | Some c \<Rightarrow>
          (case unused_lines clerk_by_id uids of
             Inl e \<Rightarrow> Inl e
           | Inr ls \<Rightarrow> Inr ((''  '' @ uid @ ''  ('' @ email c @ '')'') # ls)))"

definition main_report ::
  "(string set \<Rightarrow> string list) \<Rightarrow> clerk_user list \<Rightarrow> db_row list \<Rightarrow> py_error + string list" where
  \<comment> \<open>lines 153 to 206 of \<open>main\<close> on the two fetched lists: the strings handed to
      \<open>print\<close> from line 162 on, in order\<close>
  "main_report set_iter clerk_users db_users =
     (let clerk_by_id = clerk_by_id_of clerk_users;
          db_ids = db_ids_of db_users;
          all_ids = all_ids_of set_iter clerk_by_id db_ids;
          st = report_loop clerk_by_id db_users all_ids
                 \<lparr>orphaned_db = [], unused_clerk = [], printed = header_lines\<rparr>;
          out = printed st @
                ['''', ''Clerk users:  '' @ str_nat (length clerk_users),
                 ''DB users:     '' @ str_nat (length db_users)]
      in case (if orphaned_db st \<noteq> []
               then (case orphaned_lines db_users (orphaned_db st) of
                       Inl e \<Rightarrow> Inl e
                     | Inr ls \<Rightarrow>
                         Inr (out @
                              [''\<newline>Orphaned DB users (no Clerk account): '' @
                                 str_nat (length (orphaned_db st))] @ ls))
               else Inr (out @
                         [''\<newline>No orphaned DB data found -- all DB users have Clerk accounts.''])) of
           Inl e \<Rightarrow> Inl e
         | Inr out' \<Rightarrow>
             (if unused_clerk st \<noteq> []
              then (case unused_lines clerk_by_id (unused_clerk st) of
                      Inl e \<Rightarrow> Inl e
                    | Inr ls \<Rightarrow>
                        Inr (out' @
                             [''\<newline>Clerk users with no DB data: '' @
                                str_nat (length (unused_clerk st))] @ ls))
              else Inr out'))"

subsection \<open>The vocabulary of the report's properties\<close>

text \<open>
  \<open>identity_ids\<close> and \<open>db_ids_of\<close> are the two sets of IDs of a run. \<open>iterates\<close>
  says that an iteration order lists a set: every element once and nothing else.
  \<open>report_rows\<close> are the rows that the loop of line 169 builds, in the order in which
  it prints them. \<open>orphaned_line\<close> and \<open>unused_line\<close> are the texts of the two
  listings of the summary.
\<close>

definition identity_ids :: "clerk_user list \<Rightarrow> string set" where
  "identity_ids clerk_users = set (map user_id clerk_users)"

definition iterates :: "('a set \<Rightarrow> 'a list) \<Rightarrow> 'a set \<Rightarrow> bool" where
  "iterates set_iter S = (set (set_iter S) = S \<and> distinct (set_iter S))"

definition report_row_of :: "clerk_user dict \<Rightarrow> db_row list \<Rightarrow> string \<Rightarrow> report_row" where
  "report_row_of clerk_by_id db_users uid =
     fst (report_iteration clerk_by_id db_users uid
            \<lparr>orphaned_db = [], unused_clerk = [], printed = []\<rparr>)"

definition report_rows ::
  "(string set \<Rightarrow> string list) \<Rightarrow> clerk_user list \<Rightarrow> db_row list \<Rightarrow> report_row list" where
  "report_rows set_iter clerk_users db_users =
     map (report_row_of (clerk_by_id_of clerk_users) db_users)
       (all_ids_of set_iter (clerk_by_id_of clerk_users) (db_ids_of db_users))"

definition orphaned_line :: "db_row \<Rightarrow> string" where
  "orphaned_line row =
     ''  '' @ clerk_user_id row @ ''  ('' @ str_int (trip_count row) @ '' trips, '' @
     str_int (master_item_count row) @ '' items)''"

definition unused_line :: "clerk_user \<Rightarrow> string" where
  "unused_line c = ''  '' @ user_id c @ ''  ('' @ email c @ '')''"

definition orphaned_rows :: "clerk_user list \<Rightarrow> db_row list \<Rightarrow> db_row list" where
  \<comment> \<open>for each database-only ID, in ascending order, its first summary\<close>
  "orphaned_rows clerk_users db_users =
     List.map_filter (\<lambda>uid. find (\<lambda>r. clerk_user_id r = uid) db_users)
       (sorted_list_of_set (db_ids_of db_users - identity_ids clerk_users))"

definition unused_users :: "clerk_user list \<Rightarrow> db_row list \<Rightarrow> clerk_user list" where
  \<comment> \<open>for each identity-only ID, in ascending order, the user indexed under it\<close>
  "unused_users clerk_users db_users =
     List.map_filter (map_of (clerk_by_id_of clerk_users))
       (sorted_list_of_set (identity_ids clerk_users - db_ids_of db_users))"

definition report_summary :: "clerk_user list \<Rightarrow> db_row list \<Rightarrow> string list" where
  \<comment> \<open>what follows the table: the two counts and the two listings\<close>
  "report_summary clerk_users db_users =
     ['''', ''Clerk users:  '' @ str_nat (length clerk_users),
      ''DB users:     '' @ str_nat (length db_users)] @
     (if orphaned_rows clerk_users db_users = []
      then [''\<newline>No orphaned DB data found -- all DB users have Clerk accounts.'']
      else (''\<newline>Orphaned DB users (no Clerk account): '' @
              str_nat (length (orphaned_rows clerk_users db_users))) #
           map orphaned_line (orphaned_rows clerk_users db_users)) @
     (if unused_users clerk_users db_users = [] then []
      else (''\<newline>Clerk users with no DB data: '' @
              str_nat (length (unused_users clerk_users db_users))) #
           map unused_line (unused_users clerk_users db_users))"

subsection \<open>A sample run\<close>

text \<open>
  Two identity users and two database summaries, sharing the ID \<open>u3\<close>, so that each of
  the three statuses occurs once.
\<close>

definition scenario_users :: "clerk_user list" where
  "scenario_users =
     [\<lparr>user_id = ''u3'', email = ''c@x.com'', created_at = ''2024-03-01 10:00:00''\<rparr>,
      \<lparr>user_id = ''u1'', email = ''a@x.com'', created_at = ''2024-01-01 09:30:00''\<rparr>]"

definition scenario_db :: "db_row list" where
  "scenario_db =
     [\<lparr>clerk_user_id = ''u2'', trip_count = 3, master_item_count = 12, category_count = 4,
       bag_template_count = 1\<rparr>,
      \<lparr>clerk_user_id = ''u3'', trip_count = 1, master_item_count = 0, category_count = 2,
       bag_template_count = 0\<rparr>]"

section \<open>Properties of the environment loader\<close>

lemma str_partition_alt:
  "str_partition sep s =
     (takeWhile (\<lambda>c. c \<noteq> sep) s,
      take 1 (dropWhile (\<lambda>c. c \<noteq> sep) s),
      drop 1 (dropWhile (\<lambda>c. c \<noteq> sep) s))"
proof (cases "dropWhile (\<lambda>c. c \<noteq> sep) s")
  case Nil
  then have tw: "takeWhile (\<lambda>c. c \<noteq> sep) s = s"
    by (simp add: dropWhile_eq_Nil_conv)
  show ?thesis unfolding str_partition_def Nil tw by simp
next
  case (Cons c rest)
  then show ?thesis by (simp add: str_partition_def)
qed

lemma rstrip_keeps_hd:
  assumes "t \<noteq> []" "\<not> p (hd t)"
  shows "rev (dropWhile p (rev t)) \<noteq> [] \<and> hd (rev (dropWhile p (rev t))) = hd t"
  by (metis Nil_is_rev_conv assms(1,2) dropWhile_eq_Nil_conv hd_rev
    last_appendR last_in_set last_rev takeWhile_dropWhile_id)

lemma strip_chars_ends:
  assumes "strip_chars p s \<noteq> []"
  shows "\<not> p (hd (strip_chars p s)) \<and> \<not> p (last (strip_chars p s))"
  by (metis assms dropWhile_idem hd_dropWhile last_rev rev.simps(1)
    rstrip_keeps_hd strip_chars_def)

lemma strip_chars_decomp:
  "\<exists>a b. s = a @ strip_chars p s @ b \<and> (\<forall>c\<in>set a. p c) \<and> (\<forall>c\<in>set b. p c)"
proof -
  define t where "t = dropWhile p s"
  have s: "s = takeWhile p s @ t"
    by (simp add: t_def)
  have "t = rev (dropWhile p (rev t)) @ rev (takeWhile p (rev t))"
    by (metis rev_append rev_rev_ident takeWhile_dropWhile_id)
  then have t: "t = strip_chars p s @ rev (takeWhile p (rev t))"
    unfolding strip_chars_def t_def .
  have a: "\<forall>c\<in>set (takeWhile p s). p c"
    by (auto dest: set_takeWhileD)
  have b: "\<forall>c\<in>set (rev (takeWhile p (rev t))). p c"
    by (auto dest: set_takeWhileD)
  from s t have "s = takeWhile p s @ strip_chars p s @ rev (takeWhile p (rev t))"
    by simp
  with a b show ?thesis by blast
qed

lemma strip_chars_idem: "strip_chars p (strip_chars p s) = strip_chars p s"
  by (metis (no_types, lifting) Nil_is_rev_conv dropWhile_eq_self_iff
    hd_dropWhile rev_rev_ident rstrip_keeps_hd strip_chars_def)

lemma set_strip_chars: "set (strip_chars p s) \<subseteq> set s"
proof -
  obtain a b where "s = a @ strip_chars p s @ b"
    using strip_chars_decomp by blast
  then have "set s = set a \<union> set (strip_chars p s) \<union> set b"
    by (metis set_append sup_assoc)
  then show ?thesis by blast
qed

lemma startswith_hash: "line \<noteq> [] \<Longrightarrow> startswith line ''#'' = (hd line = CHR ''#'')"
  by (cases line) (auto simp: startswith_def)

lemma str_strip_set_quotes: "str_strip_set [CHR 0x27, CHR 0x22] s = strip_chars is_quote s"
  by (simp add: str_strip_set_def is_quote_def strip_chars_def cong: dropWhile_cong)

lemma load_env_line_binding:
  "load_env_line env raw =
     (case env_binding raw of None \<Rightarrow> Inr env | Some (k, v) \<Rightarrow> environ_setitem env k v)"
  by (auto simp: load_env_line_def env_binding_def Let_def str_partition_alt startswith_hash
      str_strip_set_quotes)

lemma environ_setitem_ok: "putenv_ok (k, v) \<Longrightarrow> environ_setitem env k v = Inr (env(k \<mapsto> v))"
  by (simp add: putenv_ok_def environ_setitem_def)

lemma environ_setitem_Inr: "environ_setitem env k v = Inr env' \<Longrightarrow> env' = env(k \<mapsto> v)"
  by (auto simp: environ_setitem_def split: if_splits)

lemma load_env_lines_result:
  "load_env_lines env ls = Inr env' \<Longrightarrow>
     env' = env ++ map_of (rev (List.map_filter env_binding ls))"
proof (induction ls arbitrary: env)
  case Nil
  then show ?case by (simp add: List.map_filter_simps)
next
  case (Cons l ls)
  show ?case
  proof (cases "env_binding l")
    case None
    with Cons show ?thesis
      by (simp add: load_env_line_binding List.map_filter_simps)
  next
    case (Some kv)
    obtain k v where kv: "kv = (k, v)" by (cases kv)
    from Cons.prems Some kv obtain env1 where
      e1: "environ_setitem env k v = Inr env1" and rest: "load_env_lines env1 ls = Inr env'"
      by (auto simp: load_env_line_binding split: sum.splits)
    from e1 have env1: "env1 = env(k \<mapsto> v)" by (rule environ_setitem_Inr)
    have "env' = env(k \<mapsto> v) ++ map_of (rev (List.map_filter env_binding ls))"
      using Cons.IH[OF rest] unfolding env1 .
    also have "\<dots> = env ++ map_of (rev ((k, v) # List.map_filter env_binding ls))"
      by (auto simp: fun_eq_iff map_add_def split: option.splits)
    finally show ?thesis using Some kv
      by (simp add: List.map_filter_simps)
  qed
qed

lemma load_env_lines_total:
  "\<forall>kv\<in>set (List.map_filter env_binding ls). putenv_ok kv \<Longrightarrow>
     \<exists>env'. load_env_lines env ls = Inr env'"
proof (induction ls arbitrary: env)
  case Nil
  then show ?case by simp
next
  case (Cons l ls)
  then show ?case
    by (cases "env_binding l")
       (auto simp: load_env_line_binding List.map_filter_simps environ_setitem_ok)
qed

text \<open>
  Claim C7, as stated, fails: the loader does not look for a matching pair of quotes.
  On the line \<open>K="abc\<close> it stores \<open>abc\<close>, although the value's only quote has no
  partner and the narrower reading would keep it.
\<close>

theorem load_env_unmatched_quote_counterexample:
  "load_env_line Map.empty (''K='' @ [CHR 0x22] @ ''abc'') = Inr [''K'' \<mapsto> ''abc'']
   \<and> matching_pair_unquote (str_strip ([CHR 0x22] @ ''abc'')) \<noteq> ''abc''"
  by (simp add: load_env_line_def str_strip_def strip_chars_def py_isspace_def startswith_def
      str_partition_def str_strip_set_def environ_setitem_def matching_pair_unquote_def is_quote_def)

text \<open>
  Claim C7, amended: a blank or comment line changes nothing; every other line is split
  at its first \<open>=\<close>, the name and the value are trimmed of white space, every leading
  and trailing quote character of the value is removed (matching or not), and the pair
  is assigned to the process environment. A run over a whole file that succeeds leaves
  the old environment overridden by the file's bindings, a later line for a name
  winning over an earlier one; and the run succeeds whenever the environment accepts
  every binding of the file.
\<close>

theorem load_env_sets_stripped_values:
  "load_env_line env raw =
     (case env_binding raw of None \<Rightarrow> Inr env | Some (k, v) \<Rightarrow> environ_setitem env k v)
   \<and> (env_binding raw = Some (key, val) \<longrightarrow>
        (\<exists>a b. str_strip (drop 1 (dropWhile (\<lambda>c. c \<noteq> CHR ''='') (str_strip raw)))
                 = a @ val @ b
               \<and> (\<forall>c\<in>set a. is_quote c) \<and> (\<forall>c\<in>set b. is_quote c))
        \<and> (val = [] \<or> (\<not> is_quote (hd val) \<and> \<not> is_quote (last val))))
   \<and> (load_env_lines env ls = Inr env' \<longrightarrow>
        env' = env ++ map_of (rev (List.map_filter env_binding ls)))
   \<and> ((\<forall>kv\<in>set (List.map_filter env_binding ls). putenv_ok kv) \<longrightarrow>
        (\<exists>env''. load_env_lines env ls = Inr env''))"
proof -
  have quotes: "(\<exists>a b. str_strip (drop 1 (dropWhile (\<lambda>c. c \<noteq> CHR ''='') (str_strip raw)))
                 = a @ val @ b
               \<and> (\<forall>c\<in>set a. is_quote c) \<and> (\<forall>c\<in>set b. is_quote c))
        \<and> (val = [] \<or> (\<not> is_quote (hd val) \<and> \<not> is_quote (last val)))"
    if "env_binding raw = Some (key, val)"
  proof -
    let ?rest = "str_strip (drop 1 (dropWhile (\<lambda>c. c \<noteq> CHR ''='') (str_strip raw)))"
    from that have val: "val = strip_chars is_quote ?rest"
      by (auto simp: env_binding_def Let_def split: if_splits)
    show ?thesis
      unfolding val using strip_chars_decomp [of ?rest is_quote] strip_chars_ends [of is_quote ?rest]
      by blast
  qed
  from quotes load_env_line_binding [of env raw] load_env_lines_result [of env ls env']
    load_env_lines_total [of ls env]
  show ?thesis by blast
qed

theorem load_env_sets_stripped_values_witness:
  "List.map_filter env_binding
        [''A=1'', ''# c'', ''  A = '' @ [CHR 0x22] @ ''2'' @ [CHR 0x22, CHR 0x27] @ '' '']
       = [(''A'', ''1''), (''A'', ''2'')]
   \<and> putenv_ok (''A'', ''1'') \<and> putenv_ok (''A'', ''2'')
   \<and> load_env_lines Map.empty
        [''A=1'', ''# c'', ''  A = '' @ [CHR 0x22] @ ''2'' @ [CHR 0x22, CHR 0x27] @ '' '']
       = Inr [''A'' \<mapsto> ''2'']"
proof -
  let ?ls = "[''A=1'', ''# c'', ''  A = '' @ [CHR 0x22] @ ''2'' @ [CHR 0x22, CHR 0x27] @ '' '']"
  have bs: "List.map_filter env_binding ?ls = [(''A'', ''1''), (''A'', ''2'')]"
    by (simp add: env_binding_def str_strip_def strip_chars_def py_isspace_def is_quote_def)
  have ok: "\<forall>kv\<in>set (List.map_filter env_binding ?ls). putenv_ok kv"
    unfolding bs by (simp add: putenv_ok_def)
  from load_env_sets_stripped_values [where env = Map.empty and ls = ?ls] ok
  obtain env'' where l: "load_env_lines Map.empty ?ls = Inr env''"
    by blast
  from load_env_sets_stripped_values [where env = Map.empty and ls = ?ls and env' = env''] l
  have "env'' = Map.empty ++ map_of (rev (List.map_filter env_binding ?ls))"
    by blast
  then have "env'' = [''A'' \<mapsto> ''2'']"
    unfolding bs by simp
  with l bs show ?thesis by (simp add: putenv_ok_def)
qed

text \<open>
  Claim C10, as stated, fails on a line that holds a NUL character: the line \<open>A\<close>
  followed by NUL is neither blank nor a comment and has no \<open>=\<close>, and the assignment
  of the loader raises ValueError, so nothing is set.
\<close>

theorem load_env_line_nul_counterexample:
  "str_strip [CHR ''A'', CHR 0x00] \<noteq> []
   \<and> \<not> startswith (str_strip [CHR ''A'', CHR 0x00]) ''#''
   \<and> CHR ''='' \<notin> set [CHR ''A'', CHR 0x00]
   \<and> load_env_line Map.empty [CHR ''A'', CHR 0x00] = Inl ValueError"
  by (simp add: load_env_line_def str_strip_def strip_chars_def py_isspace_def startswith_def
      str_partition_def str_strip_set_def environ_setitem_def)

text \<open>
  Claim C10, amended: a line that is neither blank nor a comment, has no \<open>=\<close> and holds
  no NUL character is not rejected or skipped. The whole trimmed line is set as the
  name of an environment variable, with the empty string as its value.
\<close>

theorem load_env_line_without_equals:
  assumes "str_strip raw \<noteq> []" and "\<not> startswith (str_strip raw) ''#''"
    and "CHR ''='' \<notin> set raw" and "CHR 0x00 \<notin> set raw"
  shows "load_env_line env raw = Inr (env(str_strip raw \<mapsto> []))"
proof -
  let ?line = "str_strip raw"
  have sub: "set ?line \<subseteq> set raw"
    unfolding str_strip_def by (rule set_strip_chars)
  with assms(3) have noeq: "CHR ''='' \<notin> set ?line" by blast
  then have dw: "dropWhile (\<lambda>c. c \<noteq> CHR ''='') ?line = []"
    by (simp add: dropWhile_eq_Nil_conv) blast
  have part: "str_partition CHR ''='' ?line = (?line, [], [])"
    unfolding str_partition_def dw by simp
  have idem: "str_strip ?line = ?line"
    unfolding str_strip_def by (rule strip_chars_idem)
  have empty: "str_strip_set [CHR 0x27, CHR 0x22] (str_strip []) = []"
    by (simp add: str_strip_set_def str_strip_def strip_chars_def)
  have eq: "load_env_line env raw = environ_setitem env ?line []"
    using assms(1,2) by (simp add: load_env_line_def part idem empty)
  have "environ_setitem env ?line [] = Inr (env(?line \<mapsto> []))"
    using assms(4) sub noeq assms(1) by (auto simp: environ_setitem_def)
  with eq show ?thesis by simp
qed

theorem load_env_line_without_equals_witness:
  "str_strip '' FLAG '' \<noteq> [] \<and> \<not> startswith (str_strip '' FLAG '') ''#''
   \<and> CHR ''='' \<notin> set '' FLAG '' \<and> CHR 0x00 \<notin> set '' FLAG ''
   \<and> load_env_line Map.empty '' FLAG '' = Inr [''FLAG'' \<mapsto> []]"
proof -
  have s: "str_strip '' FLAG '' = ''FLAG''"
    by (simp add: str_strip_def strip_chars_def py_isspace_def)
  have h1: "str_strip '' FLAG '' \<noteq> []" and h2: "\<not> startswith (str_strip '' FLAG '') ''#''"
    and h3: "CHR ''='' \<notin> set '' FLAG ''" and h4: "CHR 0x00 \<notin> set '' FLAG ''"
    by (simp_all add: s startswith_def)
  have r: "load_env_line Map.empty '' FLAG '' = Inr [''FLAG'' \<mapsto> []]"
    using load_env_line_without_equals [OF h1 h2 h3 h4, of Map.empty] s by simp
  show ?thesis using h1 h2 h3 h4 r by blast
qed

section \<open>Properties of the two fetchers\<close>










lemma query_d1_defaults:
  assumes "run [find_wrangler env local_wrangler, ''d1'', ''execute'', db_name, ''--remote'',
                ''--json'', ''--command'', sql] = Inr result"
    and "returncode result = 0" and "json_loads (stdout result) = Inr data"
    and "\<not> expected_shape data"
    and "\<forall>x xs. data = JArray (x # xs) \<longrightarrow> (\<exists>kvs. x = JObject kvs)"
  shows "query_d1 env local_wrangler db_name run json_loads sql = Inr (JArray [])"
proof -
  have "(case data of JArray (x # xs) \<Rightarrow> py_get x ''results'' (JArray []) | _ \<Rightarrow> Inr (JArray []))
        = Inr (JArray [])"
  proof (cases data)
    case (JArray ys)
    show ?thesis
    proof (cases ys)
      case Nil
      with JArray show ?thesis by simp
    next
      case (Cons x xs)
      with JArray assms(5) obtain kvs where "x = JObject kvs" by blast
      with JArray Cons assms(4) show ?thesis by (simp split: option.splits)
    qed
  qed simp_all
  with assms(1-3) show ?thesis
    by (simp add: query_d1_def Let_def)
qed

text \<open>
  Claim C6 does not hold of the code. When the tool's output parses to a non-empty
  list whose first element is not an object, as \<open>[1]\<close> does, \<open>data[0].get\<close> raises
  AttributeError instead of giving the empty list. The shapes for which the default
  is reached are those of \<open>query_d1_defaults\<close> above.
\<close>

theorem query_d1_first_element_not_object:
  "\<not> expected_shape (JArray [JInt 1])
   \<and> query_d1 Map.empty None ''packzen-db''
        (\<lambda>argv. Inr \<lparr>returncode = 0, stdout = ''[1]'', stderr = ''''\<rparr>)
        (\<lambda>s. Inr (JArray [JInt 1])) ''SELECT 1''
      = Inl AttributeError"
  by (simp add: query_d1_def Let_def)

section \<open>Properties of the report\<close>

lemma find_Some_mem: "find P xs = Some x \<Longrightarrow> P x \<and> x \<in> set xs"
  by (induction xs) (auto split: if_splits)

lemma clerk_by_id_of_snoc:
  "clerk_by_id_of (cu @ [u]) = AList.update (user_id u) u (clerk_by_id_of cu)"
  by (simp add: clerk_by_id_of_def)

lemma clerk_by_id_of_Nil: "clerk_by_id_of [] = []"
  by (simp add: clerk_by_id_of_def)

lemma clerk_by_id_lookup:
  "map_of (clerk_by_id_of cu) uid = find (\<lambda>u. user_id u = uid) (rev cu)"
  by (induction cu rule: rev_induct)
     (auto simp: clerk_by_id_of_snoc clerk_by_id_of_Nil update_conv')

lemma clerk_by_id_keys: "set (map fst (clerk_by_id_of cu)) = identity_ids cu"
  by (induction cu rule: rev_induct)
     (auto simp: clerk_by_id_of_snoc clerk_by_id_of_Nil identity_ids_def dom_update)

lemma clerk_by_id_distinct: "distinct (map fst (clerk_by_id_of cu))"
  by (induction cu rule: rev_induct)
     (auto simp: clerk_by_id_of_snoc clerk_by_id_of_Nil distinct_update)

lemma clerk_by_id_None: "map_of (clerk_by_id_of cu) uid = None \<longleftrightarrow> uid \<notin> identity_ids cu"
  by (auto simp: clerk_by_id_lookup find_None_iff identity_ids_def)

lemma clerk_by_id_Some:
  "map_of (clerk_by_id_of cu) uid = Some c \<Longrightarrow> user_id c = uid \<and> c \<in> set cu"
  by (auto simp: clerk_by_id_lookup dest: find_Some_mem)

lemma find_db_None:
  "find (\<lambda>r. clerk_user_id r = uid) db = None \<longleftrightarrow> uid \<notin> db_ids_of db"
  by (auto simp: find_None_iff db_ids_of_def)

lemma sort_iterates:
  assumes "iterates set_iter S"
  shows "sort (set_iter S) = sorted_list_of_set S"
proof -
  from assms have s: "set (set_iter S) = S" and d: "distinct (set_iter S)"
    by (simp_all add: iterates_def)
  have "sorted_list_of_set (set (set_iter S)) = sort (remdups (set_iter S))"
    by (rule sorted_list_of_set_sort_remdups)
  with s d show ?thesis by (simp add: distinct_remdups_id)
qed

lemma all_ids_sorted_list:
  assumes "iterates set_iter (identity_ids cu \<union> db_ids_of db)"
  shows "all_ids_of set_iter (clerk_by_id_of cu) (db_ids_of db)
         = sorted_list_of_set (identity_ids cu \<union> db_ids_of db)"
  unfolding all_ids_of_def clerk_by_id_keys by (rule sort_iterates [OF assms])

lemma finite_ids: "finite (identity_ids cu \<union> db_ids_of db)"
  by (simp add: identity_ids_def db_ids_of_def)

lemma report_iteration_fst:
  "fst (report_iteration cb db uid st) = report_row_of cb db uid"
  by (simp add: report_row_of_def report_iteration_def Let_def split: prod.splits)

lemma report_row_of_eq:
  "report_row_of cb db uid =
     \<lparr>row_uid = uid,
      row_email = (case map_of cb uid of Some c \<Rightarrow> email c | None \<Rightarrow> ''''),
      row_trips = (case find (\<lambda>r. clerk_user_id r = uid) db of Some r \<Rightarrow> trip_count r | None \<Rightarrow> 0),
      row_items = (case find (\<lambda>r. clerk_user_id r = uid) db of Some r \<Rightarrow> master_item_count r | None \<Rightarrow> 0),
      row_cats = (case find (\<lambda>r. clerk_user_id r = uid) db of Some r \<Rightarrow> category_count r | None \<Rightarrow> 0),
      row_tmpls = (case find (\<lambda>r. clerk_user_id r = uid) db of Some r \<Rightarrow> bag_template_count r | None \<Rightarrow> 0),
      row_status =
        (if map_of cb uid \<noteq> None \<and> find (\<lambda>r. clerk_user_id r = uid) db \<noteq> None then ''ok''
         else if map_of cb uid \<noteq> None then ''NO DB DATA''
         else ''** ORPHANED DB DATA **'')\<rparr>"
  by (simp add: report_row_of_def report_iteration_def Let_def split: prod.splits)

lemma report_iteration_snd:
  "snd (report_iteration cb db uid st) =
     st\<lparr>orphaned_db := orphaned_db st @ (if map_of cb uid = None then [uid] else []),
        unused_clerk := unused_clerk st @
          (if map_of cb uid \<noteq> None \<and> find (\<lambda>r. clerk_user_id r = uid) db = None then [uid] else []),
        printed := printed st @ [format_row (report_row_of cb db uid)]\<rparr>"
  by (simp add: report_row_of_def report_iteration_def Let_def split: prod.splits)

lemma report_loop_eq:
  "report_loop cb db uids st =
     st\<lparr>orphaned_db := orphaned_db st @ filter (\<lambda>uid. map_of cb uid = None) uids,
        unused_clerk := unused_clerk st @
          filter (\<lambda>uid. map_of cb uid \<noteq> None \<and> find (\<lambda>r. clerk_user_id r = uid) db = None) uids,
        printed := printed st @ map (\<lambda>uid. format_row (report_row_of cb db uid)) uids\<rparr>"
  by (induction uids arbitrary: st) (simp_all add: report_iteration_snd)

lemma filter_sorted_list_of_set:
  assumes "finite A"
  shows "filter P (sorted_list_of_set A) = sorted_list_of_set {x \<in> A. P x}"
proof (rule sorted_distinct_set_unique)
  show "sorted (filter P (sorted_list_of_set A))"
    by (simp add: sorted_filter [where f = "\<lambda>x. x", simplified])
  show "distinct (filter P (sorted_list_of_set A))" by simp
  show "sorted (sorted_list_of_set {x \<in> A. P x})" by simp
  show "distinct (sorted_list_of_set {x \<in> A. P x})" by simp
  show "set (filter P (sorted_list_of_set A)) = set (sorted_list_of_set {x \<in> A. P x})"
    using assms by auto
qed

lemma orphaned_ids_eq:
  "filter (\<lambda>uid. map_of (clerk_by_id_of cu) uid = None)
     (sorted_list_of_set (identity_ids cu \<union> db_ids_of db))
   = sorted_list_of_set (db_ids_of db - identity_ids cu)"
proof -
  have "{x \<in> identity_ids cu \<union> db_ids_of db. x \<notin> identity_ids cu} = db_ids_of db - identity_ids cu"
    by blast
  then show ?thesis
    by (simp add: clerk_by_id_None filter_sorted_list_of_set [OF finite_ids])
qed

lemma unused_ids_eq:
  "filter (\<lambda>uid. map_of (clerk_by_id_of cu) uid \<noteq> None \<and> find (\<lambda>r. clerk_user_id r = uid) db = None)
     (sorted_list_of_set (identity_ids cu \<union> db_ids_of db))
   = sorted_list_of_set (identity_ids cu - db_ids_of db)"
proof -
  have "{x \<in> identity_ids cu \<union> db_ids_of db. x \<in> identity_ids cu \<and> x \<notin> db_ids_of db}
        = identity_ids cu - db_ids_of db"
    by blast
  then show ?thesis
    by (simp add: clerk_by_id_None find_db_None filter_sorted_list_of_set [OF finite_ids])
qed

lemma orphaned_lines_eq:
  "\<forall>uid\<in>set uids. uid \<in> db_ids_of db \<Longrightarrow>
     orphaned_lines db uids =
       Inr (map orphaned_line (List.map_filter (\<lambda>uid. find (\<lambda>r. clerk_user_id r = uid) db) uids))"
proof (induction uids)
  case Nil
  then show ?case by (simp add: List.map_filter_simps)
next
  case (Cons uid uids)
  from Cons.prems have "uid \<in> db_ids_of db" by simp
  then obtain r where r: "find (\<lambda>r. clerk_user_id r = uid) db = Some r"
    using find_db_None [of uid db] by (cases "find (\<lambda>r. clerk_user_id r = uid) db") auto
  then have "clerk_user_id r = uid" by (auto dest: find_Some_mem)
  with Cons r show ?case
    by (simp add: List.map_filter_simps orphaned_line_def)
qed

lemma unused_lines_eq:
  "\<forall>uid\<in>set uids. uid \<in> identity_ids cu \<Longrightarrow>
     unused_lines (clerk_by_id_of cu) uids =
       Inr (map unused_line (List.map_filter (map_of (clerk_by_id_of cu)) uids))"
proof (induction uids)
  case Nil
  then show ?case by (simp add: List.map_filter_simps)
next
  case (Cons uid uids)
  from Cons.prems have "uid \<in> identity_ids cu" by simp
  then obtain c where c: "map_of (clerk_by_id_of cu) uid = Some c"
    using clerk_by_id_None [of cu uid] by (cases "map_of (clerk_by_id_of cu) uid") auto
  then have "user_id c = uid" by (auto dest: clerk_by_id_Some)
  with Cons c show ?case
    by (simp add: List.map_filter_simps unused_line_def)
qed

lemma orphaned_rows_ids:
  "map clerk_user_id (orphaned_rows cu db) = sorted_list_of_set (db_ids_of db - identity_ids cu)"
proof -
  have "\<forall>uid\<in>set uids. uid \<in> db_ids_of db \<Longrightarrow>
        map clerk_user_id (List.map_filter (\<lambda>uid. find (\<lambda>r. clerk_user_id r = uid) db) uids) = uids"
    for uids
  proof (induction uids)
    case Nil
    then show ?case by (simp add: List.map_filter_simps)
  next
    case (Cons uid uids)
    from Cons.prems have "uid \<in> db_ids_of db" by simp
    then obtain r where r: "find (\<lambda>r. clerk_user_id r = uid) db = Some r"
      using find_db_None [of uid db] by (cases "find (\<lambda>r. clerk_user_id r = uid) db") auto
    then have "clerk_user_id r = uid" by (auto dest: find_Some_mem)
    with Cons r show ?case by (simp add: List.map_filter_simps)
  qed
  moreover have "\<forall>uid\<in>set (sorted_list_of_set (db_ids_of db - identity_ids cu)). uid \<in> db_ids_of db"
    by (simp add: db_ids_of_def)
  ultimately show ?thesis by (simp add: orphaned_rows_def)
qed

lemma unused_users_ids:
  "map user_id (unused_users cu db) = sorted_list_of_set (identity_ids cu - db_ids_of db)"
proof -
  have "\<forall>uid\<in>set uids. uid \<in> identity_ids cu \<Longrightarrow>
        map user_id (List.map_filter (map_of (clerk_by_id_of cu)) uids) = uids"
    for uids
  proof (induction uids)
    case Nil
    then show ?case by (simp add: List.map_filter_simps)
  next
    case (Cons uid uids)
    from Cons.prems have "uid \<in> identity_ids cu" by simp
    then obtain c where c: "map_of (clerk_by_id_of cu) uid = Some c"
      using clerk_by_id_None [of cu uid] by (cases "map_of (clerk_by_id_of cu) uid") auto
    then have "user_id c = uid" by (auto dest: clerk_by_id_Some)
    with Cons c show ?case by (simp add: List.map_filter_simps)
  qed
  moreover have "\<forall>uid\<in>set (sorted_list_of_set (identity_ids cu - db_ids_of db)). uid \<in> identity_ids cu"
    by (simp add: identity_ids_def)
  ultimately show ?thesis by (simp add: unused_users_def)
qed

lemma orphaned_rows_Nil:
  "orphaned_rows cu db = [] \<longleftrightarrow> sorted_list_of_set (db_ids_of db - identity_ids cu) = []"
  by (metis orphaned_rows_ids map_is_Nil_conv)

lemma unused_users_Nil:
  "unused_users cu db = [] \<longleftrightarrow> sorted_list_of_set (identity_ids cu - db_ids_of db) = []"
  by (metis unused_users_ids map_is_Nil_conv)

lemma orphaned_rows_length:
  "length (orphaned_rows cu db) = length (sorted_list_of_set (db_ids_of db - identity_ids cu))"
  by (metis orphaned_rows_ids length_map)

lemma unused_users_length:
  "length (unused_users cu db) = length (sorted_list_of_set (identity_ids cu - db_ids_of db))"
  by (metis unused_users_ids length_map)

lemma main_report_eq:
  assumes "iterates set_iter (identity_ids cu \<union> db_ids_of db)"
  shows "main_report set_iter cu db =
           Inr (header_lines @ map format_row (report_rows set_iter cu db) @ report_summary cu db)"
proof -
  let ?O = "sorted_list_of_set (db_ids_of db - identity_ids cu)"
  let ?U = "sorted_list_of_set (identity_ids cu - db_ids_of db)"
  let ?ids = "sorted_list_of_set (identity_ids cu \<union> db_ids_of db)"
  define st where "st = report_loop (clerk_by_id_of cu) db ?ids
      \<lparr>orphaned_db = [], unused_clerk = [], printed = header_lines\<rparr>"
  have ids: "all_ids_of set_iter (clerk_by_id_of cu) (db_ids_of db) = ?ids"
    by (rule all_ids_sorted_list [OF assms])
  have o: "orphaned_db st = ?O"
    unfolding st_def report_loop_eq orphaned_ids_eq [symmetric] by simp
  have u: "unused_clerk st = ?U"
    unfolding st_def report_loop_eq unused_ids_eq [symmetric] by simp
  have p: "printed st = header_lines @ map format_row (report_rows set_iter cu db)"
    unfolding st_def report_loop_eq report_rows_def ids by simp
  have ol: "orphaned_lines db ?O = Inr (map orphaned_line (orphaned_rows cu db))"
    unfolding orphaned_rows_def by (rule orphaned_lines_eq) (simp add: db_ids_of_def)
  have ul: "unused_lines (clerk_by_id_of cu) ?U = Inr (map unused_line (unused_users cu db))"
    unfolding unused_users_def by (rule unused_lines_eq) (simp add: identity_ids_def)
  have on: "orphaned_rows cu db = [] \<longleftrightarrow> ?O = []" by (rule orphaned_rows_Nil)
  have un: "unused_users cu db = [] \<longleftrightarrow> ?U = []" by (rule unused_users_Nil)
  have olen: "length (orphaned_rows cu db) = length ?O" by (rule orphaned_rows_length)
  have ulen: "length (unused_users cu db) = length ?U" by (rule unused_users_length)
  show ?thesis
    unfolding main_report_def Let_def ids st_def [symmetric] o u p ol ul
      report_summary_def on un olen ulen
    by (cases "?O = []"; cases "?U = []") simp_all
qed

lemma iterates_sorted_list_of_set: "finite S \<Longrightarrow> iterates sorted_list_of_set S"
  by (simp add: iterates_def)

lemma iterates_rev_sorted: "finite S \<Longrightarrow> iterates (\<lambda>S. rev (sorted_list_of_set S)) S"
  by (simp add: iterates_def)

lemma report_rows_uids:
  assumes "iterates set_iter (identity_ids cu \<union> db_ids_of db)"
  shows "map row_uid (report_rows set_iter cu db)
         = sorted_list_of_set (identity_ids cu \<union> db_ids_of db)"
  by (simp add: report_rows_def all_ids_sorted_list [OF assms] report_row_of_eq o_def)

lemma report_rows_mem:
  assumes "iterates set_iter (identity_ids cu \<union> db_ids_of db)"
    and "row \<in> set (report_rows set_iter cu db)"
  shows "row = report_row_of (clerk_by_id_of cu) db (row_uid row)
         \<and> row_uid row \<in> identity_ids cu \<union> db_ids_of db"
proof -
  from assms(2) obtain uid where
    uid: "uid \<in> set (sorted_list_of_set (identity_ids cu \<union> db_ids_of db))"
    and row: "row = report_row_of (clerk_by_id_of cu) db uid"
    by (auto simp: report_rows_def all_ids_sorted_list [OF assms(1)])
  from row have "row_uid row = uid" by (simp add: report_row_of_eq)
  with uid row show ?thesis using finite_ids [of cu db] by simp
qed

lemma report_row_status:
  "row_status (report_row_of (clerk_by_id_of cu) db uid) =
     (if uid \<in> identity_ids cu \<and> uid \<in> db_ids_of db then ''ok''
      else if uid \<in> identity_ids cu then ''NO DB DATA''
      else ''** ORPHANED DB DATA **'')"
  by (simp add: report_row_of_eq clerk_by_id_None find_db_None)

text \<open>
  Claim C1: whatever order the interpreter iterates the set of IDs in, the report that
  is printed is the header, then one line per row of the loop of line 169, then the
  summary; each line shows the row's ID, email and four counts in their columns and
  ends with the row's status. The rows carry the IDs of the sorted union, and the
  status of a row is \<open>ok\<close> exactly when its ID is both an identity ID and a database
  ID, \<open>NO DB DATA\<close> exactly when it is an identity ID only, and
  \<open>** ORPHANED DB DATA **\<close> exactly when it is a database ID only.
\<close>

theorem report_classification:
  assumes "iterates set_iter (identity_ids cu \<union> db_ids_of db)"
  shows "main_report set_iter cu db =
           Inr (header_lines @
                map (\<lambda>r. ljust 36 (row_uid r) @ '' '' @ ljust 35 (row_email r) @ '' '' @
                          rjust 5 (str_int (row_trips r)) @ '' '' @
                          rjust 5 (str_int (row_items r)) @ '' '' @
                          rjust 4 (str_int (row_cats r)) @ '' '' @
                          rjust 4 (str_int (row_tmpls r)) @ ''  '' @ row_status r)
                  (report_rows set_iter cu db) @
                report_summary cu db)
         \<and> map row_uid (report_rows set_iter cu db)
           = sorted_list_of_set (identity_ids cu \<union> db_ids_of db)
         \<and> (\<forall>row\<in>set (report_rows set_iter cu db).
              (row_status row = ''ok'' \<longleftrightarrow> row_uid row \<in> identity_ids cu \<inter> db_ids_of db) \<and>
              (row_status row = ''NO DB DATA''
                 \<longleftrightarrow> row_uid row \<in> identity_ids cu - db_ids_of db) \<and>
              (row_status row = ''** ORPHANED DB DATA **''
                 \<longleftrightarrow> row_uid row \<in> db_ids_of db - identity_ids cu))"
proof (intro conjI ballI)
  show "main_report set_iter cu db =
           Inr (header_lines @
                map (\<lambda>r. ljust 36 (row_uid r) @ '' '' @ ljust 35 (row_email r) @ '' '' @
                          rjust 5 (str_int (row_trips r)) @ '' '' @
                          rjust 5 (str_int (row_items r)) @ '' '' @
                          rjust 4 (str_int (row_cats r)) @ '' '' @
                          rjust 4 (str_int (row_tmpls r)) @ ''  '' @ row_status r)
                  (report_rows set_iter cu db) @
                report_summary cu db)"
    unfolding main_report_eq [OF assms] by (simp add: format_row_def)
next
  show "map row_uid (report_rows set_iter cu db)
          = sorted_list_of_set (identity_ids cu \<union> db_ids_of db)"
    by (rule report_rows_uids [OF assms])
next
  fix row assume "row \<in> set (report_rows set_iter cu db)"
  from report_rows_mem [OF assms this]
  have row: "row = report_row_of (clerk_by_id_of cu) db (row_uid row)"
    and mem: "row_uid row \<in> identity_ids cu \<union> db_ids_of db" by simp_all
  have st: "row_status row =
     (if row_uid row \<in> identity_ids cu \<and> row_uid row \<in> db_ids_of db then ''ok''
      else if row_uid row \<in> identity_ids cu then ''NO DB DATA''
      else ''** ORPHANED DB DATA **'')"
    by (subst row) (rule report_row_status)
  show "row_status row = ''ok'' \<longleftrightarrow> row_uid row \<in> identity_ids cu \<inter> db_ids_of db"
    unfolding st by simp
  show "row_status row = ''NO DB DATA'' \<longleftrightarrow> row_uid row \<in> identity_ids cu - db_ids_of db"
    unfolding st by simp
  show "row_status row = ''** ORPHANED DB DATA **''
          \<longleftrightarrow> row_uid row \<in> db_ids_of db - identity_ids cu"
    unfolding st using mem by auto
qed

theorem report_classification_witness:
  "iterates sorted_list_of_set (identity_ids scenario_users \<union> db_ids_of scenario_db)
   \<and> map row_uid (report_rows sorted_list_of_set scenario_users scenario_db)
       = [''u1'', ''u2'', ''u3'']
   \<and> map row_status (report_rows sorted_list_of_set scenario_users scenario_db)
       = [''NO DB DATA'', ''** ORPHANED DB DATA **'', ''ok'']
   \<and> ''u1'' \<in> identity_ids scenario_users - db_ids_of scenario_db
   \<and> ''u2'' \<in> db_ids_of scenario_db - identity_ids scenario_users
   \<and> ''u3'' \<in> identity_ids scenario_users \<inter> db_ids_of scenario_db
   \<and> main_report sorted_list_of_set scenario_users scenario_db =
       Inr (header_lines @
            [''u1                                   a@x.com                            '' @
             ''     0     0    0    0  NO DB DATA'',
             ''u2                                                                      '' @
             ''     3    12    4    1  ** ORPHANED DB DATA **'',
             ''u3                                   c@x.com                            '' @
             ''     1     0    2    0  ok''] @
            report_summary scenario_users scenario_db)"
proof -
  have h: "iterates sorted_list_of_set (identity_ids scenario_users \<union> db_ids_of scenario_db)"
    by (rule iterates_sorted_list_of_set) (rule finite_ids)
  have s: "sorted_list_of_set (identity_ids scenario_users \<union> db_ids_of scenario_db)
           = [''u1'', ''u2'', ''u3'']"
    by code_simp
  have st: "map row_status (report_rows sorted_list_of_set scenario_users scenario_db)
       = [''NO DB DATA'', ''** ORPHANED DB DATA **'', ''ok'']"
    by code_simp
  have m: "''u1'' \<in> identity_ids scenario_users - db_ids_of scenario_db"
    "''u2'' \<in> db_ids_of scenario_db - identity_ids scenario_users"
    "''u3'' \<in> identity_ids scenario_users \<inter> db_ids_of scenario_db"
    by (simp_all add: identity_ids_def db_ids_of_def scenario_users_def scenario_db_def)
  have lines: "map (\<lambda>r. ljust 36 (row_uid r) @ '' '' @ ljust 35 (row_email r) @ '' '' @
                          rjust 5 (str_int (row_trips r)) @ '' '' @
                          rjust 5 (str_int (row_items r)) @ '' '' @
                          rjust 4 (str_int (row_cats r)) @ '' '' @
                          rjust 4 (str_int (row_tmpls r)) @ ''  '' @ row_status r)
                  (report_rows sorted_list_of_set scenario_users scenario_db)
        = [''u1                                   a@x.com                            '' @
             ''     0     0    0    0  NO DB DATA'',
             ''u2                                                                      '' @
             ''     3    12    4    1  ** ORPHANED DB DATA **'',
             ''u3                                   c@x.com                            '' @
             ''     1     0    2    0  ok'']"
    by code_simp
  note t = report_classification [OF h]
  from t have u: "map row_uid (report_rows sorted_list_of_set scenario_users scenario_db)
       = [''u1'', ''u2'', ''u3'']"
    unfolding s by blast
  from t have p: "main_report sorted_list_of_set scenario_users scenario_db =
       Inr (header_lines @
            [''u1                                   a@x.com                            '' @
             ''     0     0    0    0  NO DB DATA'',
             ''u2                                                                      '' @
             ''     3    12    4    1  ** ORPHANED DB DATA **'',
             ''u3                                   c@x.com                            '' @
             ''     1     0    2    0  ok''] @
            report_summary scenario_users scenario_db)"
    unfolding lines by blast
  from h u st m p show ?thesis by blast
qed



lemma blank_email_column: "ljust 35 '''' = replicate 35 CHR '' ''"
  by (simp add: ljust_def)

lemma zero_count_cells:
  "rjust 5 (str_int 0) = ''    0''" "rjust 4 (str_int 0) = ''   0''"
  by code_simp+

text \<open>
  Claim C4: the report that is printed is the header, then one line per row showing
  the row's ID, email, trips, items, categories and templates in their columns and its
  status, then the summary. A row whose ID is a database ID only has a blank email, so
  its email column is 35 blanks, and its four counts are the four counts of the summary
  found for that ID (the first one in the list). A row whose ID is an identity ID only
  has four zero counts, each displayed as a right-aligned \<open>0\<close>.
\<close>

theorem report_counts:
  assumes "iterates set_iter (identity_ids cu \<union> db_ids_of db)"
  shows "main_report set_iter cu db =
           Inr (header_lines @
                map (\<lambda>r. ljust 36 (row_uid r) @ '' '' @ ljust 35 (row_email r) @ '' '' @
                          rjust 5 (str_int (row_trips r)) @ '' '' @
                          rjust 5 (str_int (row_items r)) @ '' '' @
                          rjust 4 (str_int (row_cats r)) @ '' '' @
                          rjust 4 (str_int (row_tmpls r)) @ ''  '' @ row_status r)
                  (report_rows set_iter cu db) @
                report_summary cu db)
         \<and> (\<forall>row\<in>set (report_rows set_iter cu db).
           (row_uid row \<in> db_ids_of db - identity_ids cu \<longrightarrow>
              row_email row = '''' \<and> ljust 35 (row_email row) = replicate 35 CHR '' '' \<and>
              (\<exists>r\<in>set db. find (\<lambda>r'. clerk_user_id r' = row_uid row) db = Some r \<and>
                 row_trips row = trip_count r \<and> row_items row = master_item_count r \<and>
                 row_cats row = category_count r \<and> row_tmpls row = bag_template_count r)) \<and>
           (row_uid row \<in> identity_ids cu - db_ids_of db \<longrightarrow>
              row_trips row = 0 \<and> row_items row = 0 \<and> row_cats row = 0 \<and> row_tmpls row = 0 \<and>
              rjust 5 (str_int (row_trips row)) = ''    0'' \<and>
              rjust 5 (str_int (row_items row)) = ''    0'' \<and>
              rjust 4 (str_int (row_cats row)) = ''   0'' \<and>
              rjust 4 (str_int (row_tmpls row)) = ''   0''))"
proof (intro conjI ballI)
  show "main_report set_iter cu db =
           Inr (header_lines @
                map (\<lambda>r. ljust 36 (row_uid r) @ '' '' @ ljust 35 (row_email r) @ '' '' @
                          rjust 5 (str_int (row_trips r)) @ '' '' @
                          rjust 5 (str_int (row_items r)) @ '' '' @
                          rjust 4 (str_int (row_cats r)) @ '' '' @
                          rjust 4 (str_int (row_tmpls r)) @ ''  '' @ row_status r)
                  (report_rows set_iter cu db) @
                report_summary cu db)"
    unfolding main_report_eq [OF assms] by (simp add: format_row_def)
next
  fix row assume "row \<in> set (report_rows set_iter cu db)"
  from report_rows_mem [OF assms this]
  have row: "row = report_row_of (clerk_by_id_of cu) db (row_uid row)" by simp
  let ?uid = "row_uid row"
  show "?uid \<in> db_ids_of db - identity_ids cu \<longrightarrow>
              row_email row = '''' \<and> ljust 35 (row_email row) = replicate 35 CHR '' '' \<and>
              (\<exists>r\<in>set db. find (\<lambda>r'. clerk_user_id r' = ?uid) db = Some r \<and>
                 row_trips row = trip_count r \<and> row_items row = master_item_count r \<and>
                 row_cats row = category_count r \<and> row_tmpls row = bag_template_count r)"
  proof
    assume that: "?uid \<in> db_ids_of db - identity_ids cu"
    then have n: "map_of (clerk_by_id_of cu) ?uid = None"
      by (simp add: clerk_by_id_None)
    from that obtain r where r: "find (\<lambda>r'. clerk_user_id r' = ?uid) db = Some r"
      using find_db_None [of ?uid db] by (cases "find (\<lambda>r'. clerk_user_id r' = ?uid) db") auto
    then have mem: "r \<in> set db" by (auto dest: find_Some_mem)
    have f: "row_email row = '''' \<and> row_trips row = trip_count r \<and>
        row_items row = master_item_count r \<and> row_cats row = category_count r \<and>
        row_tmpls row = bag_template_count r"
      by (subst (1 2 3 4 5) row) (simp add: report_row_of_eq n r)
    then have "ljust 35 (row_email row) = replicate 35 CHR '' ''"
      by (simp only: blank_email_column)
    with f r mem show "row_email row = '''' \<and> ljust 35 (row_email row) = replicate 35 CHR '' '' \<and>
              (\<exists>r\<in>set db. find (\<lambda>r'. clerk_user_id r' = ?uid) db = Some r \<and>
                 row_trips row = trip_count r \<and> row_items row = master_item_count r \<and>
                 row_cats row = category_count r \<and> row_tmpls row = bag_template_count r)"
      by blast
  qed
  show "?uid \<in> identity_ids cu - db_ids_of db \<longrightarrow>
              row_trips row = 0 \<and> row_items row = 0 \<and> row_cats row = 0 \<and> row_tmpls row = 0 \<and>
              rjust 5 (str_int (row_trips row)) = ''    0'' \<and>
              rjust 5 (str_int (row_items row)) = ''    0'' \<and>
              rjust 4 (str_int (row_cats row)) = ''   0'' \<and>
              rjust 4 (str_int (row_tmpls row)) = ''   0''"
  proof
    assume that: "?uid \<in> identity_ids cu - db_ids_of db"
    then have n: "find (\<lambda>r'. clerk_user_id r' = ?uid) db = None"
      by (simp add: find_db_None)
    have z: "row_trips row = 0 \<and> row_items row = 0 \<and> row_cats row = 0 \<and> row_tmpls row = 0"
      by (subst (1 2 3 4) row) (simp add: report_row_of_eq n)
    then show "row_trips row = 0 \<and> row_items row = 0 \<and> row_cats row = 0 \<and> row_tmpls row = 0 \<and>
              rjust 5 (str_int (row_trips row)) = ''    0'' \<and>
              rjust 5 (str_int (row_items row)) = ''    0'' \<and>
              rjust 4 (str_int (row_cats row)) = ''   0'' \<and>
              rjust 4 (str_int (row_tmpls row)) = ''   0''"
      by (simp only: zero_count_cells simp_thms)
  qed
qed

theorem report_counts_witness:
  "iterates sorted_list_of_set (identity_ids scenario_users \<union> db_ids_of scenario_db)
   \<and> report_rows sorted_list_of_set scenario_users scenario_db =
       [\<lparr>row_uid = ''u1'', row_email = ''a@x.com'', row_trips = 0, row_items = 0,
         row_cats = 0, row_tmpls = 0, row_status = ''NO DB DATA''\<rparr>,
        \<lparr>row_uid = ''u2'', row_email = '''', row_trips = 3, row_items = 12,
         row_cats = 4, row_tmpls = 1, row_status = ''** ORPHANED DB DATA **''\<rparr>,
        \<lparr>row_uid = ''u3'', row_email = ''c@x.com'', row_trips = 1, row_items = 0,
         row_cats = 2, row_tmpls = 0, row_status = ''ok''\<rparr>]
   \<and> ''u1'' \<in> identity_ids scenario_users - db_ids_of scenario_db
   \<and> ''u2'' \<in> db_ids_of scenario_db - identity_ids scenario_users
   \<and> row_trips (hd (report_rows sorted_list_of_set scenario_users scenario_db)) = 0
   \<and> row_email (report_rows sorted_list_of_set scenario_users scenario_db ! 1) = ''''
   \<and> main_report sorted_list_of_set scenario_users scenario_db =
       Inr (header_lines @
            [''u1                                   a@x.com                            '' @
             ''     0     0    0    0  NO DB DATA'',
             ''u2                                                                      '' @
             ''     3    12    4    1  ** ORPHANED DB DATA **'',
             ''u3                                   c@x.com                            '' @
             ''     1     0    2    0  ok''] @
            report_summary scenario_users scenario_db)"
proof -
  have h: "iterates sorted_list_of_set (identity_ids scenario_users \<union> db_ids_of scenario_db)"
    by (rule iterates_sorted_list_of_set) (rule finite_ids)
  have rows: "report_rows sorted_list_of_set scenario_users scenario_db =
       [\<lparr>row_uid = ''u1'', row_email = ''a@x.com'', row_trips = 0, row_items = 0,
         row_cats = 0, row_tmpls = 0, row_status = ''NO DB DATA''\<rparr>,
        \<lparr>row_uid = ''u2'', row_email = '''', row_trips = 3, row_items = 12,
         row_cats = 4, row_tmpls = 1, row_status = ''** ORPHANED DB DATA **''\<rparr>,
        \<lparr>row_uid = ''u3'', row_email = ''c@x.com'', row_trips = 1, row_items = 0,
         row_cats = 2, row_tmpls = 0, row_status = ''ok''\<rparr>]"
    by code_simp
  have m: "''u1'' \<in> identity_ids scenario_users - db_ids_of scenario_db"
    "''u2'' \<in> db_ids_of scenario_db - identity_ids scenario_users"
    by (simp_all add: identity_ids_def db_ids_of_def scenario_users_def scenario_db_def)
  have lines: "map (\<lambda>r. ljust 36 (row_uid r) @ '' '' @ ljust 35 (row_email r) @ '' '' @
                          rjust 5 (str_int (row_trips r)) @ '' '' @
                          rjust 5 (str_int (row_items r)) @ '' '' @
                          rjust 4 (str_int (row_cats r)) @ '' '' @
                          rjust 4 (str_int (row_tmpls r)) @ ''  '' @ row_status r)
                  (report_rows sorted_list_of_set scenario_users scenario_db)
        = [''u1                                   a@x.com                            '' @
             ''     0     0    0    0  NO DB DATA'',
             ''u2                                                                      '' @
             ''     3    12    4    1  ** ORPHANED DB DATA **'',
             ''u3                                   c@x.com                            '' @
             ''     1     0    2    0  ok'']"
    by code_simp
  note t = report_counts [OF h]
  from conjunct2 [OF t] m
  have c: "row_trips (hd (report_rows sorted_list_of_set scenario_users scenario_db)) = 0"
    "row_email (report_rows sorted_list_of_set scenario_users scenario_db ! 1) = ''''"
    unfolding rows by simp_all
  from conjunct1 [OF t]
  have p: "main_report sorted_list_of_set scenario_users scenario_db =
       Inr (header_lines @
            [''u1                                   a@x.com                            '' @
             ''     0     0    0    0  NO DB DATA'',
             ''u2                                                                      '' @
             ''     3    12    4    1  ** ORPHANED DB DATA **'',
             ''u3                                   c@x.com                            '' @
             ''     1     0    2    0  ok''] @
            report_summary scenario_users scenario_db)"
    unfolding lines .
  from h rows m c p show ?thesis by blast
qed

lemma find_distinct_key:
  "distinct (map f xs) \<Longrightarrow> x \<in> set xs \<Longrightarrow> find (\<lambda>y. f y = f x) xs = Some x"
  by (induction xs) (auto simp: image_iff)

lemma find_key_perm:
  assumes "distinct (map f xs)" and "mset ys = mset xs"
  shows "find (\<lambda>y. f y = k) ys = find (\<lambda>y. f y = k) xs"
proof -
  from assms(2) have "mset (map f ys) = mset (map f xs)" by simp
  with assms(1) have dy: "distinct (map f ys)"
    by (metis mset_eq_imp_distinct_iff)
  from assms(2) have s: "set ys = set xs" by (rule mset_eq_setD)
  show ?thesis
  proof (cases "find (\<lambda>y. f y = k) xs")
    case None
    then have "\<forall>x\<in>set xs. f x \<noteq> k" by (simp add: find_None_iff)
    with s have "find (\<lambda>y. f y = k) ys = None" by (simp add: find_None_iff)
    with None show ?thesis by simp
  next
    case (Some x)
    then have "f x = k" and "x \<in> set xs" by (auto dest: find_Some_mem)
    with s dy find_distinct_key [of f ys x] Some show ?thesis by auto
  qed
qed

lemma identity_ids_perm: "mset cu' = mset cu \<Longrightarrow> identity_ids cu' = identity_ids cu"
  by (auto simp: identity_ids_def dest: mset_eq_setD)

lemma db_ids_perm: "mset db' = mset db \<Longrightarrow> db_ids_of db' = db_ids_of db"
  by (auto simp: db_ids_of_def dest: mset_eq_setD)

lemma clerk_by_id_perm:
  assumes "distinct (map user_id cu)" and "mset cu' = mset cu"
  shows "map_of (clerk_by_id_of cu') = map_of (clerk_by_id_of cu)"
proof
  fix uid
  from assms(1) have "distinct (map user_id (rev cu))" by (simp add: rev_map [symmetric])
  moreover from assms(2) have "mset (rev cu') = mset (rev cu)" by simp
  ultimately show "map_of (clerk_by_id_of cu') uid = map_of (clerk_by_id_of cu) uid"
    unfolding clerk_by_id_lookup by (rule find_key_perm)
qed

lemma find_db_perm:
  assumes "distinct (map clerk_user_id db)" and "mset db' = mset db"
  shows "(\<lambda>uid. find (\<lambda>r. clerk_user_id r = uid) db') = (\<lambda>uid. find (\<lambda>r. clerk_user_id r = uid) db)"
  by (rule ext) (rule find_key_perm [OF assms])

lemma report_row_of_cong:
  assumes "map_of cb' = map_of cb"
    and "(\<lambda>uid. find (\<lambda>r. clerk_user_id r = uid) db') = (\<lambda>uid. find (\<lambda>r. clerk_user_id r = uid) db)"
  shows "report_row_of cb' db' = report_row_of cb db"
proof
  fix uid
  from assms(2) have "find (\<lambda>r. clerk_user_id r = uid) db' = find (\<lambda>r. clerk_user_id r = uid) db"
    by (rule fun_cong)
  with assms(1) show "report_row_of cb' db' uid = report_row_of cb db uid"
    by (simp add: report_row_of_eq)
qed

lemma report_rows_perm:
  assumes "iterates set_iter (identity_ids cu \<union> db_ids_of db)"
    and "iterates set_iter' (identity_ids cu \<union> db_ids_of db)"
    and "mset cu' = mset cu" and "mset db' = mset db"
    and "distinct (map user_id cu)" and "distinct (map clerk_user_id db)"
  shows "report_rows set_iter' cu' db' = report_rows set_iter cu db"
proof -
  have I: "identity_ids cu' = identity_ids cu" by (rule identity_ids_perm [OF assms(3)])
  have D: "db_ids_of db' = db_ids_of db" by (rule db_ids_perm [OF assms(4)])
  from assms(2) have it': "iterates set_iter' (identity_ids cu' \<union> db_ids_of db')"
    by (simp add: I D)
  have a: "all_ids_of set_iter (clerk_by_id_of cu) (db_ids_of db)
           = sorted_list_of_set (identity_ids cu \<union> db_ids_of db)"
    by (rule all_ids_sorted_list [OF assms(1)])
  have a': "all_ids_of set_iter' (clerk_by_id_of cu') (db_ids_of db')
           = sorted_list_of_set (identity_ids cu \<union> db_ids_of db)"
    using all_ids_sorted_list [OF it'] unfolding I D .
  have rr: "report_row_of (clerk_by_id_of cu') db' = report_row_of (clerk_by_id_of cu) db"
    by (rule report_row_of_cong [OF clerk_by_id_perm [OF assms(5,3)] find_db_perm [OF assms(6,4)]])
  show ?thesis
    unfolding report_rows_def a a' rr ..
qed

lemma report_summary_perm:
  assumes "mset cu' = mset cu" and "mset db' = mset db"
    and "distinct (map user_id cu)" and "distinct (map clerk_user_id db)"
  shows "report_summary cu' db' = report_summary cu db"
proof -
  have I: "identity_ids cu' = identity_ids cu" by (rule identity_ids_perm [OF assms(1)])
  have D: "db_ids_of db' = db_ids_of db" by (rule db_ids_perm [OF assms(2)])
  have o: "orphaned_rows cu' db' = orphaned_rows cu db"
    by (simp add: orphaned_rows_def I D find_db_perm [OF assms(4,2)])
  have u: "unused_users cu' db' = unused_users cu db"
    by (simp add: unused_users_def I D clerk_by_id_perm [OF assms(3,1)])
  from assms(1) have lc: "length cu' = length cu" by (rule mset_eq_length)
  from assms(2) have ld: "length db' = length db" by (rule mset_eq_length)
  show ?thesis by (simp add: report_summary_def o u lc ld)
qed

text \<open>
  Claim C3: whatever order the interpreter iterates the set of IDs in, and for every
  pair of lists, the rows come in strictly ascending order of their IDs (the order of
  \<^typ>\<open>string\<close> is lexicographic over the code points), and the report that is
  printed is the header, then one line per row in that order, each beginning with the
  row's ID, then the summary. Moreover, when the IDs within each list are distinct,
  neither the rows nor the printed report change when the two lists are permuted and
  the set of IDs is iterated in another order.
\<close>

theorem report_sorted_and_order_independent:
  assumes "iterates set_iter (identity_ids cu \<union> db_ids_of db)"
  shows "sorted_wrt (<) (map row_uid (report_rows set_iter cu db))
         \<and> main_report set_iter cu db =
           Inr (header_lines @
                map (\<lambda>r. ljust 36 (row_uid r) @ '' '' @ ljust 35 (row_email r) @ '' '' @
                          rjust 5 (str_int (row_trips r)) @ '' '' @
                          rjust 5 (str_int (row_items r)) @ '' '' @
                          rjust 4 (str_int (row_cats r)) @ '' '' @
                          rjust 4 (str_int (row_tmpls r)) @ ''  '' @ row_status r)
                  (report_rows set_iter cu db) @
                report_summary cu db)
         \<and> (iterates set_iter' (identity_ids cu \<union> db_ids_of db) \<and>
             mset cu' = mset cu \<and> mset db' = mset db \<and>
             distinct (map user_id cu) \<and> distinct (map clerk_user_id db) \<longrightarrow>
               report_rows set_iter' cu' db' = report_rows set_iter cu db \<and>
               main_report set_iter' cu' db' = main_report set_iter cu db)"
proof (intro conjI impI)
  show "sorted_wrt (<) (map row_uid (report_rows set_iter cu db))"
    unfolding report_rows_uids [OF assms] by (simp add: strict_sorted_iff)
next
  show "main_report set_iter cu db =
           Inr (header_lines @
                map (\<lambda>r. ljust 36 (row_uid r) @ '' '' @ ljust 35 (row_email r) @ '' '' @
                          rjust 5 (str_int (row_trips r)) @ '' '' @
                          rjust 5 (str_int (row_items r)) @ '' '' @
                          rjust 4 (str_int (row_cats r)) @ '' '' @
                          rjust 4 (str_int (row_tmpls r)) @ ''  '' @ row_status r)
                  (report_rows set_iter cu db) @
                report_summary cu db)"
    unfolding main_report_eq [OF assms] by (simp add: format_row_def)
next
  assume a: "iterates set_iter' (identity_ids cu \<union> db_ids_of db) \<and>
             mset cu' = mset cu \<and> mset db' = mset db \<and>
             distinct (map user_id cu) \<and> distinct (map clerk_user_id db)"
  then have it2: "iterates set_iter' (identity_ids cu \<union> db_ids_of db)"
    and mc: "mset cu' = mset cu" and md: "mset db' = mset db"
    and dc: "distinct (map user_id cu)" and dd: "distinct (map clerk_user_id db)"
    by simp_all
  have I: "identity_ids cu' = identity_ids cu" by (rule identity_ids_perm [OF mc])
  have D: "db_ids_of db' = db_ids_of db" by (rule db_ids_perm [OF md])
  from it2 have it': "iterates set_iter' (identity_ids cu' \<union> db_ids_of db')"
    by (simp add: I D)
  show r: "report_rows set_iter' cu' db' = report_rows set_iter cu db"
    by (rule report_rows_perm [OF assms it2 mc md dc dd])
  show "main_report set_iter' cu' db' = main_report set_iter cu db"
    unfolding main_report_eq [OF assms] main_report_eq [OF it'] r
      report_summary_perm [OF mc md dc dd] ..
qed

theorem report_sorted_and_order_independent_witness:
  "iterates sorted_list_of_set (identity_ids scenario_users \<union> db_ids_of scenario_db)
   \<and> iterates (\<lambda>S. rev (sorted_list_of_set S))
        (identity_ids scenario_users \<union> db_ids_of scenario_db)
   \<and> mset (rev scenario_users) = mset scenario_users
   \<and> mset (rev scenario_db) = mset scenario_db
   \<and> distinct (map user_id scenario_users) \<and> distinct (map clerk_user_id scenario_db)
   \<and> map row_uid (report_rows sorted_list_of_set scenario_users scenario_db)
       = [''u1'', ''u2'', ''u3'']
   \<and> sorted_wrt (<) (map row_uid (report_rows sorted_list_of_set scenario_users scenario_db))
   \<and> report_rows (\<lambda>S. rev (sorted_list_of_set S)) (rev scenario_users) (rev scenario_db)
       = report_rows sorted_list_of_set scenario_users scenario_db
   \<and> main_report (\<lambda>S. rev (sorted_list_of_set S)) (rev scenario_users) (rev scenario_db)
       = main_report sorted_list_of_set scenario_users scenario_db
   \<and> main_report sorted_list_of_set scenario_users scenario_db =
       Inr (header_lines @
            [''u1                                   a@x.com                            '' @
             ''     0     0    0    0  NO DB DATA'',
             ''u2                                                                      '' @
             ''     3    12    4    1  ** ORPHANED DB DATA **'',
             ''u3                                   c@x.com                            '' @
             ''     1     0    2    0  ok''] @
            report_summary scenario_users scenario_db)"
proof -
  have h1: "iterates sorted_list_of_set (identity_ids scenario_users \<union> db_ids_of scenario_db)"
    by (rule iterates_sorted_list_of_set) (rule finite_ids)
  have h2: "iterates (\<lambda>S. rev (sorted_list_of_set S))
        (identity_ids scenario_users \<union> db_ids_of scenario_db)"
    by (rule iterates_rev_sorted) (rule finite_ids)
  have h3: "mset (rev scenario_users) = mset scenario_users"
    and h4: "mset (rev scenario_db) = mset scenario_db" by simp_all
  have h5: "distinct (map user_id scenario_users)"
    and h6: "distinct (map clerk_user_id scenario_db)"
    by (simp_all add: scenario_users_def scenario_db_def)
  have u: "map row_uid (report_rows sorted_list_of_set scenario_users scenario_db)
       = [''u1'', ''u2'', ''u3'']"
    by code_simp
  have lines: "map (\<lambda>r. ljust 36 (row_uid r) @ '' '' @ ljust 35 (row_email r) @ '' '' @
                          rjust 5 (str_int (row_trips r)) @ '' '' @
                          rjust 5 (str_int (row_items r)) @ '' '' @
                          rjust 4 (str_int (row_cats r)) @ '' '' @
                          rjust 4 (str_int (row_tmpls r)) @ ''  '' @ row_status r)
                  (report_rows sorted_list_of_set scenario_users scenario_db)
        = [''u1                                   a@x.com                            '' @
             ''     0     0    0    0  NO DB DATA'',
             ''u2                                                                      '' @
             ''     3    12    4    1  ** ORPHANED DB DATA **'',
             ''u3                                   c@x.com                            '' @
             ''     1     0    2    0  ok'']"
    by code_simp
  note t = report_sorted_and_order_independent
    [where set_iter = sorted_list_of_set and set_iter' = "\<lambda>S. rev (sorted_list_of_set S)"
       and cu = scenario_users and db = scenario_db
       and cu' = "rev scenario_users" and db' = "rev scenario_db", OF h1]
  from t have s: "sorted_wrt (<)
      (map row_uid (report_rows sorted_list_of_set scenario_users scenario_db))"
    by blast
  from t have p: "main_report sorted_list_of_set scenario_users scenario_db =
       Inr (header_lines @
            [''u1                                   a@x.com                            '' @
             ''     0     0    0    0  NO DB DATA'',
             ''u2                                                                      '' @
             ''     3    12    4    1  ** ORPHANED DB DATA **'',
             ''u3                                   c@x.com                            '' @
             ''     1     0    2    0  ok''] @
            report_summary scenario_users scenario_db)"
    unfolding lines by blast
  from t h2 h3 h4 h5 h6
  have e: "report_rows (\<lambda>S. rev (sorted_list_of_set S)) (rev scenario_users) (rev scenario_db)
       = report_rows sorted_list_of_set scenario_users scenario_db"
    "main_report (\<lambda>S. rev (sorted_list_of_set S)) (rev scenario_users) (rev scenario_db)
       = main_report sorted_list_of_set scenario_users scenario_db"
    by blast+
  from h1 h2 h3 h4 h5 h6 u s e p show ?thesis by blast
qed

text \<open>
  Claim C8: the report depends on the two lists only. Two runs on the same lists both
  return, and print the same strings, whatever order each run iterates the set of IDs
  in (the one thing Python leaves open).
\<close>

theorem report_deterministic:
  assumes "iterates set_iter1 (identity_ids cu \<union> db_ids_of db)"
    and "iterates set_iter2 (identity_ids cu \<union> db_ids_of db)"
  shows "\<exists>out. main_report set_iter1 cu db = Inr out \<and> main_report set_iter2 cu db = Inr out"
proof -
  have "report_rows set_iter1 cu db = report_rows set_iter2 cu db"
    by (simp add: report_rows_def all_ids_sorted_list [OF assms(1)] all_ids_sorted_list [OF assms(2)])
  then show ?thesis
    unfolding main_report_eq [OF assms(1)] main_report_eq [OF assms(2)] by simp
qed

theorem report_deterministic_witness:
  "iterates sorted_list_of_set (identity_ids scenario_users \<union> db_ids_of scenario_db)
   \<and> iterates (\<lambda>S. rev (sorted_list_of_set S))
        (identity_ids scenario_users \<union> db_ids_of scenario_db)
   \<and> main_report (\<lambda>S. rev (sorted_list_of_set S)) scenario_users scenario_db
       = main_report sorted_list_of_set scenario_users scenario_db"
proof -
  have h1: "iterates sorted_list_of_set (identity_ids scenario_users \<union> db_ids_of scenario_db)"
    by (rule iterates_sorted_list_of_set) (rule finite_ids)
  have h2: "iterates (\<lambda>S. rev (sorted_list_of_set S))
        (identity_ids scenario_users \<union> db_ids_of scenario_db)"
    by (rule iterates_rev_sorted) (rule finite_ids)
  from report_deterministic [OF h1 h2] h1 h2 show ?thesis by auto
qed

text \<open>
  Claim C9: after the table come a blank line and the two counts. Then, if some
  database ID is no identity ID, a heading and one line per such ID, in ascending
  order, with the trip and item counts of its summary; otherwise the line that says
  none was found. Then, if some identity ID is no database ID, a heading and one line
  per such ID with the email of the user indexed under it; otherwise nothing.
\<close>

theorem report_summary_listings:
  assumes "iterates set_iter (identity_ids cu \<union> db_ids_of db)"
  shows "main_report set_iter cu db =
           Inr (header_lines @ map format_row (report_rows set_iter cu db) @
                ['''', ''Clerk users:  '' @ str_nat (length cu),
                 ''DB users:     '' @ str_nat (length db)] @
                (if db_ids_of db \<subseteq> identity_ids cu
                 then [''\<newline>No orphaned DB data found -- all DB users have Clerk accounts.'']
                 else (''\<newline>Orphaned DB users (no Clerk account): '' @
                         str_nat (card (db_ids_of db - identity_ids cu))) #
                      map orphaned_line (orphaned_rows cu db)) @
                (if identity_ids cu \<subseteq> db_ids_of db then []
                 else (''\<newline>Clerk users with no DB data: '' @
                         str_nat (card (identity_ids cu - db_ids_of db))) #
                      map unused_line (unused_users cu db)))
         \<and> map clerk_user_id (orphaned_rows cu db)
             = sorted_list_of_set (db_ids_of db - identity_ids cu)
         \<and> (\<forall>r\<in>set (orphaned_rows cu db).
               find (\<lambda>r'. clerk_user_id r' = clerk_user_id r) db = Some r)
         \<and> map user_id (unused_users cu db)
             = sorted_list_of_set (identity_ids cu - db_ids_of db)
         \<and> (\<forall>c\<in>set (unused_users cu db).
               map_of (clerk_by_id_of cu) (user_id c) = Some c)"
proof -
  have fo: "finite (db_ids_of db - identity_ids cu)" by (simp add: db_ids_of_def)
  have fu: "finite (identity_ids cu - db_ids_of db)" by (simp add: identity_ids_def)
  have on: "orphaned_rows cu db = [] \<longleftrightarrow> db_ids_of db \<subseteq> identity_ids cu"
    unfolding orphaned_rows_Nil using fo by auto
  have un: "unused_users cu db = [] \<longleftrightarrow> identity_ids cu \<subseteq> db_ids_of db"
    unfolding unused_users_Nil using fu by auto
  have ol: "length (orphaned_rows cu db) = card (db_ids_of db - identity_ids cu)"
    unfolding orphaned_rows_length by simp
  have ul: "length (unused_users cu db) = card (identity_ids cu - db_ids_of db)"
    unfolding unused_users_length by simp
  have m: "main_report set_iter cu db =
           Inr (header_lines @ map format_row (report_rows set_iter cu db) @
                ['''', ''Clerk users:  '' @ str_nat (length cu),
                 ''DB users:     '' @ str_nat (length db)] @
                (if db_ids_of db \<subseteq> identity_ids cu
                 then [''\<newline>No orphaned DB data found -- all DB users have Clerk accounts.'']
                 else (''\<newline>Orphaned DB users (no Clerk account): '' @
                         str_nat (card (db_ids_of db - identity_ids cu))) #
                      map orphaned_line (orphaned_rows cu db)) @
                (if identity_ids cu \<subseteq> db_ids_of db then []
                 else (''\<newline>Clerk users with no DB data: '' @
                         str_nat (card (identity_ids cu - db_ids_of db))) #
                      map unused_line (unused_users cu db)))"
    unfolding main_report_eq [OF assms] report_summary_def on un ol ul by simp
  have a: "\<forall>r\<in>set (orphaned_rows cu db). find (\<lambda>r'. clerk_user_id r' = clerk_user_id r) db = Some r"
  proof
    fix r assume "r \<in> set (orphaned_rows cu db)"
    then obtain uid where f: "find (\<lambda>r'. clerk_user_id r' = uid) db = Some r"
      by (auto simp: orphaned_rows_def map_filter_def)
    then have "clerk_user_id r = uid" by (auto dest: find_Some_mem)
    with f show "find (\<lambda>r'. clerk_user_id r' = clerk_user_id r) db = Some r" by simp
  qed
  have b: "\<forall>c\<in>set (unused_users cu db). map_of (clerk_by_id_of cu) (user_id c) = Some c"
  proof
    fix c assume "c \<in> set (unused_users cu db)"
    then obtain uid where f: "map_of (clerk_by_id_of cu) uid = Some c"
      by (auto simp: unused_users_def map_filter_def)
    then have "user_id c = uid" by (auto dest: clerk_by_id_Some)
    with f show "map_of (clerk_by_id_of cu) (user_id c) = Some c" by simp
  qed
  from m a b orphaned_rows_ids [of cu db] unused_users_ids [of cu db] show ?thesis
    by blast
qed

theorem report_summary_listings_witness:
  "iterates sorted_list_of_set (identity_ids scenario_users \<union> db_ids_of scenario_db)
   \<and> main_report sorted_list_of_set scenario_users scenario_db =
       Inr (header_lines @
            map format_row (report_rows sorted_list_of_set scenario_users scenario_db) @
            ['''', ''Clerk users:  2'', ''DB users:     2'',
             ''\<newline>Orphaned DB users (no Clerk account): 1'', ''  u2  (3 trips, 12 items)'',
             ''\<newline>Clerk users with no DB data: 1'', ''  u1  (a@x.com)''])
   \<and> iterates sorted_list_of_set (identity_ids [] \<union> db_ids_of [])
   \<and> main_report sorted_list_of_set [] [] =
       Inr (header_lines @
            ['''', ''Clerk users:  0'', ''DB users:     0'',
             ''\<newline>No orphaned DB data found -- all DB users have Clerk accounts.''])"
proof -
  have h: "iterates sorted_list_of_set (identity_ids scenario_users \<union> db_ids_of scenario_db)"
    by (rule iterates_sorted_list_of_set) (rule finite_ids)
  have h0: "iterates sorted_list_of_set (identity_ids [] \<union> db_ids_of [])"
    by (rule iterates_sorted_list_of_set) (rule finite_ids)
  have x: "['''', ''Clerk users:  '' @ str_nat (length scenario_users),
            ''DB users:     '' @ str_nat (length scenario_db)] @
           (if db_ids_of scenario_db \<subseteq> identity_ids scenario_users
            then [''\<newline>No orphaned DB data found -- all DB users have Clerk accounts.'']
            else (''\<newline>Orphaned DB users (no Clerk account): '' @
                    str_nat (card (db_ids_of scenario_db - identity_ids scenario_users))) #
                 map orphaned_line (orphaned_rows scenario_users scenario_db)) @
           (if identity_ids scenario_users \<subseteq> db_ids_of scenario_db then []
            else (''\<newline>Clerk users with no DB data: '' @
                    str_nat (card (identity_ids scenario_users - db_ids_of scenario_db))) #
                 map unused_line (unused_users scenario_users scenario_db))
         = ['''', ''Clerk users:  2'', ''DB users:     2'',
             ''\<newline>Orphaned DB users (no Clerk account): 1'', ''  u2  (3 trips, 12 items)'',
             ''\<newline>Clerk users with no DB data: 1'', ''  u1  (a@x.com)'']"
    by code_simp
  have x0: "['''', ''Clerk users:  '' @ str_nat (length ([] :: clerk_user list)),
            ''DB users:     '' @ str_nat (length ([] :: db_row list))] @
           (if db_ids_of [] \<subseteq> identity_ids []
            then [''\<newline>No orphaned DB data found -- all DB users have Clerk accounts.'']
            else (''\<newline>Orphaned DB users (no Clerk account): '' @
                    str_nat (card (db_ids_of [] - identity_ids []))) #
                 map orphaned_line (orphaned_rows [] [])) @
           (if identity_ids [] \<subseteq> db_ids_of [] then []
            else (''\<newline>Clerk users with no DB data: '' @
                    str_nat (card (identity_ids [] - db_ids_of []))) #
                 map unused_line (unused_users [] []))
         = ['''', ''Clerk users:  0'', ''DB users:     0'',
             ''\<newline>No orphaned DB data found -- all DB users have Clerk accounts.'']"
    by code_simp
  have r0: "report_rows sorted_list_of_set [] [] = []"
    by code_simp
  have m: "main_report sorted_list_of_set scenario_users scenario_db =
       Inr (header_lines @
            map format_row (report_rows sorted_list_of_set scenario_users scenario_db) @
            ['''', ''Clerk users:  2'', ''DB users:     2'',
             ''\<newline>Orphaned DB users (no Clerk account): 1'', ''  u2  (3 trips, 12 items)'',
             ''\<newline>Clerk users with no DB data: 1'', ''  u1  (a@x.com)''])"
    using conjunct1 [OF report_summary_listings [OF h]] unfolding x .
  have m0: "main_report sorted_list_of_set [] [] =
       Inr (header_lines @
            ['''', ''Clerk users:  0'', ''DB users:     0'',
             ''\<newline>No orphaned DB data found -- all DB users have Clerk accounts.''])"
    using conjunct1 [OF report_summary_listings [OF h0]] unfolding x0 r0 by simp
  from h h0 m m0 show ?thesis by blast
qed

end
